theory Spec2Isabelle
  imports
    Complex_Main
    "HOL-Library.Word"
    "HOL-Library.Monad_Syntax"
    "HOL-Library.Char_ord"
    "HOL-Library.List_Lexorder"
begin

unbundle bit_operations_syntax

section \<open>The MSR backend of raplcap: \<^verbatim>\<open>src/msr/raplcap-msr.c\<close>\<close>

text \<open>
  Conventions of the embedding.

  \<^item> \<^verbatim>\<open>uint64_t\<close> is \<open>64 word\<close>, \<^verbatim>\<open>uint32_t\<close> is \<open>32 word\<close>; \<^verbatim>\<open>int\<close> is 32 bits wide
    and \<^verbatim>\<open>unsigned long\<close> 64 bits wide (Linux on x86-64, the only platform with these
    registers); \<^verbatim>\<open>int\<close> values are carried as \<open>int\<close> with the range written out where
    it matters.
  \<^item> A function of the register codec returns an \<open>option\<close>: \<open>None\<close> means that the C
    function has no defined result on that input, because an \<^verbatim>\<open>assert\<close> fails or because
    a shift is undefined in C (a shift by at least the width of the promoted left operand,
    a signed shift that overflows) or an array is read out of bounds.
  \<^item> A function of the public interface that reports failure by returning \<open>-1\<close> and
    setting \<^verbatim>\<open>errno\<close> returns a sum inside that option: \<open>Inl e\<close> is "returns -1 with
    errno e", \<open>Inr x\<close> is success with result \<open>x\<close>.
  \<^item> \<^verbatim>\<open>double\<close> is modelled by \<open>real\<close>: the operations \<^verbatim>\<open>+\<close>, \<^verbatim>\<open>*\<close> and \<^verbatim>\<open>/\<close> are exact,
    without rounding and without overflow. With the units that \<^verbatim>\<open>raplcap_init\<close> computes,
    which are powers of 1/2, a product or a quotient by a unit is exact in \<^verbatim>\<open>double\<close> as
    well. The result of an operation that is infinite or NaN in C (a division by zero,
    the logarithm of a number that is not positive) is \<open>None\<close> in a \<open>real option\<close>.
  \<^item> The library function \<^verbatim>\<open>log2\<close> is not exact, and C does not say how well it is
    rounded: it is a parameter \<open>lg\<close> of the functions that call it, and a statement that
    depends on its accuracy says what it assumes.
  \<^item> The conversion of a \<^verbatim>\<open>double\<close> to \<^verbatim>\<open>uint64_t\<close> truncates towards zero. When the
    truncated value is not representable (or the number is not finite) C does not say
    what the result is; the functions that convert take the result that the
    implementation produces in that case as a parameter \<open>conv\<close>, and every statement
    about them holds for every such \<open>conv\<close>.
\<close>

subsection \<open>Error numbers and C arithmetic\<close>

datatype errno = EINVAL | ENOENT | ERANGE | EOTHER nat

text \<open>\<^verbatim>\<open>a << n\<close> on \<^verbatim>\<open>int\<close>: defined only for a non-negative \<open>a\<close>, a shift count below
  32 and a result that fits into \<^verbatim>\<open>int\<close>.\<close>

definition shl_int :: "int \<Rightarrow> nat \<Rightarrow> int option" where
  "shl_int a n = (if n < 32 \<and> 0 \<le> a \<and> a * 2 ^ n < 2 ^ 31 then Some (a * 2 ^ n) else None)"

text \<open>\<^verbatim>\<open>a << n\<close> on \<^verbatim>\<open>uint64_t\<close>: defined for a shift count below 64; high bits are lost.\<close>

definition shl_u64 :: "64 word \<Rightarrow> nat \<Rightarrow> 64 word option" where
  "shl_u64 a n = (if n < 64 then Some (push_bit n a) else None)"

text \<open>The implicit conversion from \<^verbatim>\<open>double\<close> to \<^verbatim>\<open>uint64_t\<close>.\<close>

definition double_to_u64 :: "(real option \<Rightarrow> 64 word) \<Rightarrow> real option \<Rightarrow> 64 word" where
  "double_to_u64 conv d =
     (case d of
        None \<Rightarrow> conv d
      | Some x \<Rightarrow>
          if - 1 < x \<and> x < 2 ^ 64 then word_of_int (if 0 \<le> x then \<lfloor>x\<rfloor> else \<lceil>x\<rceil>)
          else conv d)"

definition u64_to_double :: "64 word \<Rightarrow> real" where
  "u64_to_double w = real (unat w)"

text \<open>The conversion from \<^verbatim>\<open>uint64_t\<close> to \<^verbatim>\<open>int\<close> keeps the low 32 bits.\<close>

definition u64_to_int :: "64 word \<Rightarrow> int" where
  "u64_to_int w = sint (ucast w :: 32 word)"

definition div_double :: "real \<Rightarrow> real \<Rightarrow> real option" where
  "div_double x y = (if y = 0 then None else Some (x / y))"

text \<open>
  \<^verbatim>\<open>log2\<close> is a function of the C library. Its result is a \<^verbatim>\<open>double\<close> near the logarithm,
  not the logarithm itself: it is rounded, and how well depends on the library. The
  function that the library computes on positive finite numbers is the parameter \<open>lg\<close>;
  nothing is assumed of it here, and a statement that depends on its accuracy says what it
  assumes.
\<close>

definition log2_double :: "(real \<Rightarrow> real) \<Rightarrow> real option \<Rightarrow> real option" where
  "log2_double lg d = (case d of None \<Rightarrow> None | Some x \<Rightarrow> if 0 < x then Some (lg x) else None)"

text \<open>\<^verbatim>\<open>pow\<close> is only called with the base 2.0, and with an exponent that is a small
  natural number.\<close>

definition pow_double :: "real \<Rightarrow> real \<Rightarrow> real" where
  "pow_double x y = x powr y"

subsection \<open>Types of the public interface\<close>

text \<open>
  Modelled from the spec: the declarations of \<^verbatim>\<open>raplcap.h\<close> (the enumeration
  \<^verbatim>\<open>raplcap_zone\<close> and the structures \<^verbatim>\<open>raplcap_limit\<close> and \<^verbatim>\<open>raplcap\<close>), which the
  source includes but which is not among the source files. The five zones are those of
  the spec's data model; \<open>RAPLCAP_ZONE_OTHER\<close> stands for any other value of the C
  enumeration type, which the \<^verbatim>\<open>default\<close> branches of the source handle.
\<close>

datatype raplcap_zone =
    RAPLCAP_ZONE_PACKAGE
  | RAPLCAP_ZONE_CORE
  | RAPLCAP_ZONE_UNCORE
  | RAPLCAP_ZONE_DRAM
  | RAPLCAP_ZONE_PSYS
  | RAPLCAP_ZONE_OTHER int

record raplcap_limit =
  seconds :: real
  watts :: real

record raplcap_msr =
  fds :: "int list option"
  power_units :: real
  time_units :: real

record raplcap =
  nsockets :: "32 word"
  state :: "raplcap_msr option"

subsection \<open>Register access\<close>

definition MSR_RAPL_POWER_UNIT :: int where "MSR_RAPL_POWER_UNIT = 0x606"
definition MSR_PKG_POWER_LIMIT :: int where "MSR_PKG_POWER_LIMIT = 0x610"
definition MSR_PP0_POWER_LIMIT :: int where "MSR_PP0_POWER_LIMIT = 0x638"
definition MSR_PP1_POWER_LIMIT :: int where "MSR_PP1_POWER_LIMIT = 0x640"
definition MSR_DRAM_POWER_LIMIT :: int where "MSR_DRAM_POWER_LIMIT = 0x618"
definition MSR_PLATFORM_POWER_LIMIT :: int where "MSR_PLATFORM_POWER_LIMIT = 0x65C"

text \<open>
  The register devices, as \<^verbatim>\<open>pread\<close> sees them: for a file descriptor and an offset,
  either the 64-bit word that an 8-byte read at that place delivers, or the error with
  which it fails (a short transfer counts as a failure).
\<close>

type_synonym msr_dev = "int \<times> int \<Rightarrow> errno + 64 word"

text \<open>
  \<^verbatim>\<open>pwrite\<close> fails or succeeds on its own, whatever \<^verbatim>\<open>pread\<close> does at the same place:
  \<open>pw dev (fd, msr) data\<close> is the error with which an 8-byte write of \<open>data\<close> at that place
  fails when the devices are in the state \<open>dev\<close> (a short transfer counts as a failure),
  and \<open>None\<close> when the write succeeds. A successful write stores the word, so that a
  later read at that place delivers it, and changes no other place.
\<close>

type_synonym pwrite_outcome = "msr_dev \<Rightarrow> int \<times> int \<Rightarrow> 64 word \<Rightarrow> errno option"

definition read_msr_by_offset :: "msr_dev \<Rightarrow> int \<Rightarrow> int \<Rightarrow> errno + 64 word" where
  "read_msr_by_offset dev fd msr = (if msr < 0 then Inl EINVAL else dev (fd, msr))"

definition write_msr_by_offset ::
  "pwrite_outcome \<Rightarrow> msr_dev \<Rightarrow> int \<Rightarrow> int \<Rightarrow> 64 word \<Rightarrow> errno + msr_dev" where
  "write_msr_by_offset pw dev fd msr data =
     (if msr < 0 then Inl EINVAL
      else case pw dev (fd, msr) data of
             Some e \<Rightarrow> Inl e
           | None \<Rightarrow> Inr (dev((fd, msr) := Inr data)))"

text \<open>The \<^verbatim>\<open>default\<close> branch returns \<open>-1\<close> and sets errno to \<open>EINVAL\<close>; every caller passes
  the offset on to a register access, which sets the same errno for a negative offset.\<close>

fun zone_to_msr_offset :: "raplcap_zone \<Rightarrow> int" where
  "zone_to_msr_offset RAPLCAP_ZONE_PACKAGE = MSR_PKG_POWER_LIMIT"
| "zone_to_msr_offset RAPLCAP_ZONE_CORE = MSR_PP0_POWER_LIMIT"
| "zone_to_msr_offset RAPLCAP_ZONE_UNCORE = MSR_PP1_POWER_LIMIT"
| "zone_to_msr_offset RAPLCAP_ZONE_DRAM = MSR_DRAM_POWER_LIMIT"
| "zone_to_msr_offset RAPLCAP_ZONE_PSYS = MSR_PLATFORM_POWER_LIMIT"
| "zone_to_msr_offset (RAPLCAP_ZONE_OTHER _) = - 1"

text \<open>\<^verbatim>\<open>state->fds[socket]\<close>: no result when the array is absent or too short.\<close>

definition fd_of_socket :: "raplcap_msr \<Rightarrow> 32 word \<Rightarrow> int option" where
  "fd_of_socket st socket =
     (case fds st of
        None \<Rightarrow> None
      | Some fdl \<Rightarrow> if unat socket < length fdl then Some (fdl ! unat socket) else None)"

subsection \<open>Bit fields of a register word\<close>

text \<open>\<^verbatim>\<open>(msrval >> first) & ((1 << (last - first + 1)) - 1)\<close>, where the constant \<open>1\<close> is an
  \<^verbatim>\<open>int\<close>, so that the mask is computed in \<^verbatim>\<open>int\<close> and then converted.\<close>

definition get_bits :: "64 word \<Rightarrow> nat \<Rightarrow> nat \<Rightarrow> 64 word option" where
  "get_bits msrval first last' =
     (if first \<le> last' \<and> last' < 64
      then do {
        m \<leftarrow> shl_int 1 (last' - first + 1);
        Some (drop_bit first msrval AND word_of_int (m - 1))
      }
      else None)"

text \<open>Here the constant is cast: \<^verbatim>\<open>(((uint64_t) 1 << (last - first + 1)) - 1) << first\<close>.\<close>

definition replace_bits :: "64 word \<Rightarrow> 64 word \<Rightarrow> nat \<Rightarrow> nat \<Rightarrow> 64 word option" where
  "replace_bits msrval data first last' =
     (if first \<le> last' \<and> last' < 64
      then do {
        m \<leftarrow> shl_u64 1 (last' - first + 1);
        mask \<leftarrow> shl_u64 (m - 1) first;
        data' \<leftarrow> shl_u64 data first;
        Some ((msrval AND NOT mask) OR (data' AND mask))
      }
      else None)"

subsection \<open>Enabling and disabling a zone\<close>

text \<open>The result of \<^verbatim>\<open>&&\<close> is 1 or 0, and the right operand is only evaluated when the
  left one is not zero.\<close>

definition is_pkg_platform_enabled :: "64 word \<Rightarrow> int option" where
  "is_pkg_platform_enabled msrval = do {
     a \<leftarrow> get_bits msrval 15 15;
     if a = 0 then Some 0
     else do {
       b \<leftarrow> get_bits msrval 47 47;
       Some (if b = 0 then 0 else 1)
     }
   }"

definition is_core_uncore_dram_enabled :: "64 word \<Rightarrow> int option" where
  "is_core_uncore_dram_enabled msrval = map_option u64_to_int (get_bits msrval 15 15)"

definition raplcap_is_zone_enabled ::
  "32 word \<Rightarrow> raplcap option \<Rightarrow> raplcap_zone \<Rightarrow> msr_dev \<Rightarrow> (errno + int) option" where
  "raplcap_is_zone_enabled socket rc zone dev =
     (case rc of
        None \<Rightarrow> Some (Inl EINVAL)
      | Some r \<Rightarrow>
         (case state r of
            None \<Rightarrow> Some (Inl EINVAL)
          | Some st \<Rightarrow>
             if nsockets r \<le> socket then Some (Inl EINVAL)
             else do {
               fd \<leftarrow> fd_of_socket st socket;
               case read_msr_by_offset dev fd (zone_to_msr_offset zone) of
                 Inl e \<Rightarrow> Some (Inl e)
               | Inr msrval \<Rightarrow>
                  (case zone of
                     RAPLCAP_ZONE_PACKAGE \<Rightarrow> map_option Inr (is_pkg_platform_enabled msrval)
                   | RAPLCAP_ZONE_PSYS \<Rightarrow> map_option Inr (is_pkg_platform_enabled msrval)
                   | RAPLCAP_ZONE_CORE \<Rightarrow> map_option Inr (is_core_uncore_dram_enabled msrval)
                   | RAPLCAP_ZONE_UNCORE \<Rightarrow> map_option Inr (is_core_uncore_dram_enabled msrval)
                   | RAPLCAP_ZONE_DRAM \<Rightarrow> map_option Inr (is_core_uncore_dram_enabled msrval)
                   | RAPLCAP_ZONE_OTHER _ \<Rightarrow> Some (Inl EINVAL))
             }))"

definition set_pkg_platform_enabled :: "64 word \<Rightarrow> int \<Rightarrow> 64 word option" where
  "set_pkg_platform_enabled msrval enabled = do {
     let set = (if enabled \<noteq> 0 then 1 else 0);
     m1 \<leftarrow> replace_bits msrval set 15 15;
     m2 \<leftarrow> replace_bits m1 set 47 47;
     m3 \<leftarrow> replace_bits m2 set 16 16;
     replace_bits m3 set 48 48
   }"

definition set_core_uncore_dram_enabled :: "64 word \<Rightarrow> int \<Rightarrow> 64 word option" where
  "set_core_uncore_dram_enabled msrval enabled = do {
     let set = (if enabled \<noteq> 0 then 1 else 0);
     m1 \<leftarrow> replace_bits msrval set 15 15;
     replace_bits m1 set 16 16
   }"

definition raplcap_set_zone_enabled ::
  "pwrite_outcome \<Rightarrow> 32 word \<Rightarrow> raplcap option \<Rightarrow> raplcap_zone \<Rightarrow> int \<Rightarrow> msr_dev
     \<Rightarrow> (errno + msr_dev) option" where
  "raplcap_set_zone_enabled pw socket rc zone enabled dev =
     (case rc of
        None \<Rightarrow> Some (Inl EINVAL)
      | Some r \<Rightarrow>
         (case state r of
            None \<Rightarrow> Some (Inl EINVAL)
          | Some st \<Rightarrow>
             if nsockets r \<le> socket then Some (Inl EINVAL)
             else do {
               fd \<leftarrow> fd_of_socket st socket;
               let msr = zone_to_msr_offset zone;
               case read_msr_by_offset dev fd msr of
                 Inl e \<Rightarrow> Some (Inl e)
               | Inr msrval \<Rightarrow>
                  (case (case zone of
                           RAPLCAP_ZONE_PACKAGE \<Rightarrow> Some (set_pkg_platform_enabled msrval enabled)
                         | RAPLCAP_ZONE_PSYS \<Rightarrow> Some (set_pkg_platform_enabled msrval enabled)
                         | RAPLCAP_ZONE_CORE \<Rightarrow> Some (set_core_uncore_dram_enabled msrval enabled)
                         | RAPLCAP_ZONE_UNCORE \<Rightarrow> Some (set_core_uncore_dram_enabled msrval enabled)
                         | RAPLCAP_ZONE_DRAM \<Rightarrow> Some (set_core_uncore_dram_enabled msrval enabled)
                         | RAPLCAP_ZONE_OTHER _ \<Rightarrow> None) of
                     None \<Rightarrow> Some (Inl EINVAL)
                   | Some updated \<Rightarrow> do {
                       msrval' \<leftarrow> updated;
                       Some (write_msr_by_offset pw dev fd msr msrval')
                     })
             }))"

subsection \<open>Reading the limits of a zone\<close>

definition to_raplcap :: "real \<Rightarrow> real \<Rightarrow> raplcap_limit" where
  "to_raplcap secs wts = \<lparr>seconds = secs, watts = wts\<rparr>"

definition to_time_window_F :: "64 word \<Rightarrow> real option" where
  "to_time_window_F bits = (if bits \<le> 3 then Some (1.0 + 0.1 * u64_to_double bits) else None)"

text \<open>
  The two out-parameters \<^verbatim>\<open>limit_long\<close> and \<^verbatim>\<open>limit_short\<close> are pointers that may be
  null. The model takes two flags (the pointer is not null) and returns, for each
  pointer, the structure written through it (\<open>None\<close> for a null pointer, through which
  nothing is written).
\<close>

definition get_pkg_platform ::
  "64 word \<Rightarrow> raplcap_msr \<Rightarrow> bool \<Rightarrow> bool \<Rightarrow> (raplcap_limit option \<times> raplcap_limit option) option" where
  "get_pkg_platform msrval st limit_long limit_short = do {
     ll \<leftarrow>
       (if limit_long then do {
          p \<leftarrow> get_bits msrval 0 14;
          let wts = power_units st * u64_to_double p;
          y \<leftarrow> get_bits msrval 17 21;
          let e = pow_double 2.0 (u64_to_double y);
          z \<leftarrow> get_bits msrval 22 23;
          let secs = e * (1.0 + (u64_to_double z / 4.0)) * time_units st;
          Some (Some (to_raplcap secs wts))
        } else Some None);
     ls \<leftarrow>
       (if limit_short then do {
          p \<leftarrow> get_bits msrval 32 46;
          let wts = power_units st * u64_to_double p;
          y \<leftarrow> get_bits msrval 49 53;
          let e = pow_double 2.0 (u64_to_double y);
          z \<leftarrow> get_bits msrval 54 55;
          let secs = e * (1.0 + (u64_to_double z / 4.0)) * time_units st;
          Some (Some (to_raplcap secs wts))
        } else Some None);
     Some (ll, ls)
   }"

definition get_core_uncore_dram ::
  "64 word \<Rightarrow> raplcap_msr \<Rightarrow> bool \<Rightarrow> raplcap_limit option option" where
  "get_core_uncore_dram msrval st limit_long =
     (if limit_long then do {
        p \<leftarrow> get_bits msrval 0 14;
        let wts = power_units st * u64_to_double p;
        y \<leftarrow> get_bits msrval 17 21;
        let e = pow_double 2.0 (u64_to_double y);
        z \<leftarrow> get_bits msrval 22 23;
        f \<leftarrow> to_time_window_F z;
        let secs = e * f * time_units st;
        Some (Some (to_raplcap secs wts))
      } else Some None)"

definition raplcap_get_limits ::
  "32 word \<Rightarrow> raplcap option \<Rightarrow> raplcap_zone \<Rightarrow> bool \<Rightarrow> bool \<Rightarrow> msr_dev
     \<Rightarrow> (errno + raplcap_limit option \<times> raplcap_limit option) option" where
  "raplcap_get_limits socket rc zone limit_long limit_short dev =
     (case rc of
        None \<Rightarrow> Some (Inl EINVAL)
      | Some r \<Rightarrow>
         (case state r of
            None \<Rightarrow> Some (Inl EINVAL)
          | Some st \<Rightarrow>
             if nsockets r \<le> socket then Some (Inl EINVAL)
             else do {
               fd \<leftarrow> fd_of_socket st socket;
               case read_msr_by_offset dev fd (zone_to_msr_offset zone) of
                 Inl e \<Rightarrow> Some (Inl e)
               | Inr msrval \<Rightarrow>
                  (case zone of
                     RAPLCAP_ZONE_PACKAGE \<Rightarrow>
                       map_option Inr (get_pkg_platform msrval st limit_long limit_short)
                   | RAPLCAP_ZONE_PSYS \<Rightarrow>
                       map_option Inr (get_pkg_platform msrval st limit_long limit_short)
                   | RAPLCAP_ZONE_CORE \<Rightarrow>
                       map_option (\<lambda>l. Inr (l, None)) (get_core_uncore_dram msrval st limit_long)
                   | RAPLCAP_ZONE_UNCORE \<Rightarrow>
                       map_option (\<lambda>l. Inr (l, None)) (get_core_uncore_dram msrval st limit_long)
                   | RAPLCAP_ZONE_DRAM \<Rightarrow>
                       map_option (\<lambda>l. Inr (l, None)) (get_core_uncore_dram msrval st limit_long)
                   | RAPLCAP_ZONE_OTHER _ \<Rightarrow> Some (Inl EINVAL))
             }))"

subsection \<open>Writing the limits of a zone\<close>

text \<open>
  The in-parameters \<^verbatim>\<open>limit_long\<close> and \<^verbatim>\<open>limit_short\<close> are pointers that may be null:
  an \<open>option\<close>. The \<^verbatim>\<open>double\<close> values \<^verbatim>\<open>msr_pwr\<close> and \<^verbatim>\<open>msr_time\<close> are converted to
  \<^verbatim>\<open>uint64_t\<close> when they are passed to \<^verbatim>\<open>replace_bits\<close>.
\<close>

definition set_pkg_platform ::
  "(real option \<Rightarrow> 64 word) \<Rightarrow> (real \<Rightarrow> real) \<Rightarrow> 64 word \<Rightarrow> raplcap_msr \<Rightarrow> raplcap_limit option
     \<Rightarrow> raplcap_limit option \<Rightarrow> 64 word option" where
  "set_pkg_platform conv lg msrval st limit_long limit_short = do {
     m2 \<leftarrow>
       (case limit_long of
          None \<Rightarrow> Some msrval
        | Some ll \<Rightarrow> do {
            m1 \<leftarrow>
              (if 0 < watts ll then do {
                 let msr_pwr = div_double (watts ll) (power_units st);
                 replace_bits msrval (double_to_u64 conv msr_pwr) 0 14
               } else Some msrval);
            (if 0 < seconds ll then do {
               z \<leftarrow> get_bits m1 22 23;
               let msr_time = log2_double lg
                     (div_double (4.0 * seconds ll) (time_units st * (u64_to_double z + 4.0)));
               replace_bits m1 (double_to_u64 conv msr_time) 17 21
             } else Some m1)
          });
     (case limit_short of
        None \<Rightarrow> Some m2
      | Some ls \<Rightarrow> do {
          m3 \<leftarrow>
            (if 0 < watts ls then do {
               let msr_pwr = div_double (watts ls) (power_units st);
               replace_bits m2 (double_to_u64 conv msr_pwr) 32 46
             } else Some m2);
          (if 0 < seconds ls then do {
             z \<leftarrow> get_bits m3 54 55;
             let msr_time = log2_double lg
                   (div_double (4.0 * seconds ls) (time_units st * (u64_to_double z + 4.0)));
             replace_bits m3 (double_to_u64 conv msr_time) 49 53
           } else Some m3)
        })
   }"

definition set_core_uncore_dram ::
  "(real option \<Rightarrow> 64 word) \<Rightarrow> (real \<Rightarrow> real) \<Rightarrow> 64 word \<Rightarrow> raplcap_msr \<Rightarrow> raplcap_limit option
     \<Rightarrow> 64 word option" where
  "set_core_uncore_dram conv lg msrval st limit_long =
     (case limit_long of
        None \<Rightarrow> Some msrval
      | Some ll \<Rightarrow> do {
          m1 \<leftarrow>
            (if 0 < watts ll then do {
               let msr_pwr = div_double (watts ll) (power_units st);
               replace_bits msrval (double_to_u64 conv msr_pwr) 0 14
             } else Some msrval);
          (if 0 < seconds ll then do {
             z \<leftarrow> get_bits m1 22 23;
             f \<leftarrow> to_time_window_F z;
             let msr_time = log2_double lg (div_double (seconds ll) f);
             replace_bits m1 (double_to_u64 conv msr_time) 17 21
           } else Some m1)
        })"

definition raplcap_set_limits ::
  "(real option \<Rightarrow> 64 word) \<Rightarrow> (real \<Rightarrow> real) \<Rightarrow> pwrite_outcome \<Rightarrow> 32 word \<Rightarrow> raplcap option
     \<Rightarrow> raplcap_zone \<Rightarrow> raplcap_limit option \<Rightarrow> raplcap_limit option
     \<Rightarrow> msr_dev \<Rightarrow> (errno + msr_dev) option" where
  "raplcap_set_limits conv lg pw socket rc zone limit_long limit_short dev =
     (case rc of
        None \<Rightarrow> Some (Inl EINVAL)
      | Some r \<Rightarrow>
         (case state r of
            None \<Rightarrow> Some (Inl EINVAL)
          | Some st \<Rightarrow>
             if nsockets r \<le> socket then Some (Inl EINVAL)
             else do {
               fd \<leftarrow> fd_of_socket st socket;
               let msr = zone_to_msr_offset zone;
               case read_msr_by_offset dev fd msr of
                 Inl e \<Rightarrow> Some (Inl e)
               | Inr msrval \<Rightarrow>
                  (case (case zone of
                           RAPLCAP_ZONE_PACKAGE \<Rightarrow> Some (set_pkg_platform conv lg msrval st limit_long limit_short)
                         | RAPLCAP_ZONE_PSYS \<Rightarrow> Some (set_pkg_platform conv lg msrval st limit_long limit_short)
                         | RAPLCAP_ZONE_CORE \<Rightarrow> Some (set_core_uncore_dram conv lg msrval st limit_long)
                         | RAPLCAP_ZONE_UNCORE \<Rightarrow> Some (set_core_uncore_dram conv lg msrval st limit_long)
                         | RAPLCAP_ZONE_DRAM \<Rightarrow> Some (set_core_uncore_dram conv lg msrval st limit_long)
                         | RAPLCAP_ZONE_OTHER _ \<Rightarrow> None) of
                     None \<Rightarrow> Some (Inl EINVAL)
                   | Some updated \<Rightarrow> do {
                       msrval' \<leftarrow> updated;
                       Some (write_msr_by_offset pw dev fd msr msrval')
                     })
             }))"

subsection \<open>Tearing a session down\<close>

text \<open>
  \<^verbatim>\<open>close\<close> is a system call: \<open>cl k fd\<close> is its outcome on descriptor \<open>fd\<close> in the state
  \<open>k\<close> of the operating system, namely \<open>None\<close> when it returns 0 and \<open>Some e\<close> when it
  fails with errno \<open>e\<close>, together with the state afterwards. The loop runs over
  \<^verbatim>\<open>fds[0]\<close>, ..., \<^verbatim>\<open>fds[nsockets - 1]\<close>, and \<open>err_save\<close> is \<open>None\<close> for the value 0.
\<close>

fun close_fds ::
  "('k \<Rightarrow> int \<Rightarrow> errno option \<times> 'k) \<Rightarrow> int list \<Rightarrow> errno option \<Rightarrow> 'k \<Rightarrow> errno option \<times> 'k" where
  "close_fds cl [] err_save k = (err_save, k)"
| "close_fds cl (fd # rest) err_save k =
     (if 0 < fd
      then (case cl k fd of
              (None, k') \<Rightarrow> close_fds cl rest err_save k'
            | (Some e, k') \<Rightarrow> close_fds cl rest (Some e) k')
      else close_fds cl rest err_save k)"

text \<open>
  The result is the returned value, the final value of \<^verbatim>\<open>err_save\<close> (which is stored
  into errno whenever the session had a state), the session afterwards and the state of
  the operating system afterwards.
\<close>

definition raplcap_destroy ::
  "('k \<Rightarrow> int \<Rightarrow> errno option \<times> 'k) \<Rightarrow> raplcap option \<Rightarrow> 'k
     \<Rightarrow> (int \<times> errno option \<times> raplcap option \<times> 'k) option" where
  "raplcap_destroy cl rc k =
     (case rc of
        None \<Rightarrow> Some (0, None, None, k)
      | Some r \<Rightarrow>
         (case state r of
            None \<Rightarrow> Some (0, None, Some r, k)
          | Some st \<Rightarrow>
             (case fds st of
                None \<Rightarrow> Some (0, None, Some (r\<lparr>state := None\<rparr>), k)
              | Some fdl \<Rightarrow>
                 if length fdl < unat (nsockets r) then None
                 else (case close_fds cl (take (unat (nsockets r)) fdl) None k of
                         (err_save, k') \<Rightarrow>
                           Some (if err_save = None then 0 else - 1, err_save,
                                 Some (r\<lparr>state := None\<rparr>), k')))))"

text \<open>
  The calls of \<^verbatim>\<open>close\<close> that a loop over the given descriptors makes, each with its
  outcome: the observable behaviour of the teardown, against which the loop is compared.
\<close>

fun close_calls ::
  "('k \<Rightarrow> int \<Rightarrow> errno option \<times> 'k) \<Rightarrow> int list \<Rightarrow> 'k \<Rightarrow> (int \<times> errno option) list" where
  "close_calls cl [] k = []"
| "close_calls cl (fd # rest) k =
     (if 0 < fd then (fd, fst (cl k fd)) # close_calls cl rest (snd (cl k fd))
      else close_calls cl rest k)"

definition failures :: "(int \<times> errno option) list \<Rightarrow> errno list" where
  "failures calls = concat (map (\<lambda>(fd, r). case r of None \<Rightarrow> [] | Some e \<Rightarrow> [e]) calls)"

subsection \<open>Text that arrives through a pipe\<close>

text \<open>
  \<^verbatim>\<open>popen\<close> yields either no stream (\<open>None\<close>) or the lines that the command prints. The
  source reads the stream with \<^verbatim>\<open>fgets\<close> into a buffer of 32 bytes: each call delivers
  at most 31 characters and stops after a newline.
\<close>

definition newline :: char where "newline = CHR 0x0A"

definition tab :: char where "tab = CHR 0x09"

fun fgets_acc :: "nat \<Rightarrow> string \<Rightarrow> string \<Rightarrow> string list" where
  "fgets_acc n acc [] = (if acc = [] then [] else [acc])"
| "fgets_acc n acc (c # cs) =
     (if c = newline \<or> Suc (length acc) = n then (acc @ [c]) # fgets_acc n [] cs
      else fgets_acc n (acc @ [c]) cs)"

definition fgets_all :: "string list \<Rightarrow> string list" where
  "fgets_all ls = fgets_acc 31 [] (concat (map (\<lambda>l. l @ [newline]) ls))"

definition isspace :: "char \<Rightarrow> bool" where
  "isspace c = (c \<in> {CHR '' '', CHR 0x09, CHR 0x0A, CHR 0x0B, CHR 0x0C, CHR 0x0D})"

definition digit_val :: "char \<Rightarrow> nat option" where
  "digit_val c =
     (let n = of_char c :: nat in
      if 48 \<le> n \<and> n \<le> 57 then Some (n - 48)
      else if 97 \<le> n \<and> n \<le> 122 then Some (n - 87)
      else if 65 \<le> n \<and> n \<le> 90 then Some (n - 55)
      else None)"

definition is_digit :: "nat \<Rightarrow> char \<Rightarrow> bool" where
  "is_digit base c = (case digit_val c of None \<Rightarrow> False | Some d \<Rightarrow> d < base)"

fun parse_digits :: "nat \<Rightarrow> nat \<Rightarrow> string \<Rightarrow> nat \<times> string" where
  "parse_digits base acc [] = (acc, [])"
| "parse_digits base acc (c # cs) =
     (if is_digit base c then parse_digits base (acc * base + the (digit_val c)) cs
      else (acc, c # cs))"

text \<open>
  The number that the C library reads from a subject sequence (sign, then digits of the
  given base): the value as an \<^verbatim>\<open>unsigned long\<close>, whether it was out of range (in which
  case the value is \<^verbatim>\<open>ULONG_MAX\<close> and \<^verbatim>\<open>strtoul\<close> sets errno to \<open>ERANGE\<close>), and the rest of
  the text. A minus sign negates the value in the unsigned type.
\<close>

definition subject_value :: "bool \<Rightarrow> nat \<Rightarrow> string \<Rightarrow> 64 word \<times> bool \<times> string" where
  "subject_value neg base s =
     (case parse_digits base 0 s of
        (v, rest) \<Rightarrow>
          if 2 ^ 64 \<le> v then (- 1, True, rest)
          else (if neg then - word_of_nat v else word_of_nat v, False, rest))"

definition strip_sign :: "string \<Rightarrow> bool \<times> string" where
  "strip_sign s =
     (case s of
        [] \<Rightarrow> (False, [])
      | c # cs \<Rightarrow> if c = CHR ''-'' then (True, cs) else if c = CHR ''+'' then (False, cs) else (False, s))"

text \<open>\<^verbatim>\<open>strtoul(s, NULL, 0)\<close>: the base is 16 after \<^verbatim>\<open>0x\<close>, 8 after a leading \<^verbatim>\<open>0\<close>, and 10
  otherwise; without any digit the result is 0 and errno is left alone.\<close>

definition strtoul0 :: "string \<Rightarrow> 64 word \<times> bool" where
  "strtoul0 s =
     (case strip_sign (dropWhile isspace s) of
        (neg, t) \<Rightarrow>
          (case t of
             c # x # h # _ \<Rightarrow>
               if c = CHR ''0'' \<and> (x = CHR ''x'' \<or> x = CHR ''X'') \<and> is_digit 16 h
               then (case subject_value neg 16 (drop 2 t) of (v, e, _) \<Rightarrow> (v, e))
               else if c = CHR ''0'' then (case subject_value neg 8 t of (v, e, _) \<Rightarrow> (v, e))
               else if is_digit 10 c then (case subject_value neg 10 t of (v, e, _) \<Rightarrow> (v, e))
               else (0, False)
           | c # _ \<Rightarrow>
               if c = CHR ''0'' then (case subject_value neg 8 t of (v, e, _) \<Rightarrow> (v, e))
               else if is_digit 10 c then (case subject_value neg 10 t of (v, e, _) \<Rightarrow> (v, e))
               else (0, False)
           | [] \<Rightarrow> (0, False)))"

text \<open>One \<^verbatim>\<open>%u\<close> of \<^verbatim>\<open>sscanf\<close>: white space is skipped, an optionally signed decimal number
  follows, and its value is stored into an \<^verbatim>\<open>unsigned int\<close>. No digit: the conversion
  fails.\<close>

definition scan_u :: "string \<Rightarrow> (32 word \<times> string) option" where
  "scan_u s =
     (case strip_sign (dropWhile isspace s) of
        (neg, t) \<Rightarrow>
          (case t of
             [] \<Rightarrow> None
           | c # _ \<Rightarrow>
               if is_digit 10 c
               then (case subject_value neg 10 t of (v, _, rest) \<Rightarrow> Some (ucast v, rest))
               else None))"

text \<open>\<^verbatim>\<open>sscanf(output, "%u %u", &socket, &core) == 2\<close>, with the two values.\<close>

definition sscanf_u_u :: "string \<Rightarrow> (32 word \<times> 32 word) option" where
  "sscanf_u_u s =
     (case scan_u s of
        None \<Rightarrow> None
      | Some (a, rest) \<Rightarrow>
         (case scan_u rest of
            None \<Rightarrow> None
          | Some (b, _) \<Rightarrow> Some (a, b)))"

subsection \<open>Counting the sockets\<close>

text \<open>
  The command that \<^verbatim>\<open>count_sockets\<close> runs on the lines of \<^verbatim>\<open>/proc/cpuinfo\<close>:
  \<^verbatim>\<open>egrep 'physical id' | sort -u | cut -d : -f 2 | awk '{print $1}' | tail -n 1\<close>.
  \<^verbatim>\<open>sort\<close> without \<^verbatim>\<open>-n\<close> compares the lines as text, character by character.
\<close>

fun starts_with :: "string \<Rightarrow> string \<Rightarrow> bool" where
  "starts_with [] s = True"
| "starts_with (p # ps) [] = False"
| "starts_with (p # ps) (c # cs) = (p = c \<and> starts_with ps cs)"

fun contains :: "string \<Rightarrow> string \<Rightarrow> bool" where
  "contains pat [] = (pat = [])"
| "contains pat (c # cs) = (starts_with pat (c # cs) \<or> contains pat cs)"

definition egrep :: "string \<Rightarrow> string list \<Rightarrow> string list" where
  "egrep pat ls = filter (contains pat) ls"

definition sort_u :: "string list \<Rightarrow> string list" where
  "sort_u ls = remdups_adj (sort ls)"

text \<open>\<^verbatim>\<open>cut -d : -f 2\<close> prints a line without the delimiter as it is.\<close>

definition cut_f2 :: "string \<Rightarrow> string" where
  "cut_f2 l =
     (if CHR '':'' \<in> set l
      then takeWhile (\<lambda>c. c \<noteq> CHR '':'') (tl (dropWhile (\<lambda>c. c \<noteq> CHR '':'') l))
      else l)"

definition is_blank :: "char \<Rightarrow> bool" where
  "is_blank c = (c = CHR '' '' \<or> c = CHR 0x09)"

definition awk_print1 :: "string \<Rightarrow> string" where
  "awk_print1 l = takeWhile (\<lambda>c. \<not> is_blank c) (dropWhile is_blank l)"

definition tail_n1 :: "string list \<Rightarrow> string list" where
  "tail_n1 ls = (if ls = [] then [] else [last ls])"

definition socket_count_cmd :: "string list \<Rightarrow> string list" where
  "socket_count_cmd cpuinfo =
     tail_n1 (map awk_print1 (map cut_f2 (sort_u (egrep ''physical id'' cpuinfo))))"

text \<open>The loop of \<^verbatim>\<open>count_sockets\<close> over the buffers that \<^verbatim>\<open>fgets\<close> delivers.\<close>

fun count_loop :: "string list \<Rightarrow> 32 word \<Rightarrow> 32 word" where
  "count_loop [] sockets = sockets"
| "count_loop (output # rest) sockets =
     (case strtoul0 output of
        (v, erange) \<Rightarrow> if erange then 0 else count_loop rest (ucast (v + 1)))"

definition count_sockets :: "string list option \<Rightarrow> 32 word" where
  "count_sockets fp = (case fp of None \<Rightarrow> 0 | Some ls \<Rightarrow> count_loop (fgets_all ls) 0)"

definition raplcap_get_num_sockets :: "raplcap option \<Rightarrow> string list option \<Rightarrow> 32 word" where
  "raplcap_get_num_sockets rc fp = (case rc of None \<Rightarrow> count_sockets fp | Some r \<Rightarrow> nsockets r)"

text \<open>
  What the spec asks of the socket count, on the values of the \<^verbatim>\<open>physical id\<close> fields of
  all logical CPUs: the largest one plus one, and 0 when there is none.
\<close>

definition max_physical_id_plus_one :: "nat list \<Rightarrow> nat" where
  "max_physical_id_plus_one ids = (if ids = [] then 0 else Max (set ids) + 1)"

subsection \<open>Finding a core for each socket and opening its registers\<close>

text \<open>
  The command that \<^verbatim>\<open>raplcap_open_msrs\<close> runs on the lines of \<^verbatim>\<open>/proc/cpuinfo\<close>:
  \<^verbatim>\<open>egrep 'processor|core id|physical id' | cut -d : -f 2 | paste - - - | awk '{print $2 " " $1}'\<close>.
  \<^verbatim>\<open>egrep\<close> keeps the lines that contain one of the three texts. \<^verbatim>\<open>paste - - -\<close> joins
  every three consecutive lines into one, with a tab between them, and the last lines
  with empty fields when fewer than three are left. \<^verbatim>\<open>awk\<close> splits a line into fields at
  the runs of blanks, and prints the second field, a space and the first field; a field
  that the line does not have is empty.
\<close>

definition egrep_any :: "string list \<Rightarrow> string list \<Rightarrow> string list" where
  "egrep_any pats ls = filter (\<lambda>l. list_ex (\<lambda>pat. contains pat l) pats) ls"

fun paste3 :: "string list \<Rightarrow> string list" where
  "paste3 (a # b # c # rest) = (a @ [tab] @ b @ [tab] @ c) # paste3 rest"
| "paste3 [a, b] = [a @ [tab] @ b @ [tab]]"
| "paste3 [a] = [a @ [tab, tab]]"
| "paste3 [] = []"

fun awk_split :: "string \<Rightarrow> string \<Rightarrow> string list" where
  "awk_split acc [] = (if acc = [] then [] else [acc])"
| "awk_split acc (c # cs) =
     (if is_blank c then (if acc = [] then awk_split [] cs else acc # awk_split [] cs)
      else awk_split (acc @ [c]) cs)"

definition awk_field :: "nat \<Rightarrow> string \<Rightarrow> string" where
  "awk_field n l =
     (let fields = awk_split [] l
      in if 0 < n \<and> n \<le> length fields then fields ! (n - 1) else [])"

definition awk_print_2_1 :: "string \<Rightarrow> string" where
  "awk_print_2_1 l = awk_field 2 l @ '' '' @ awk_field 1 l"

definition socket_core_cmd :: "string list \<Rightarrow> string list" where
  "socket_core_cmd cpuinfo =
     map awk_print_2_1
       (paste3 (map cut_f2 (egrep_any [''processor'', ''core id'', ''physical id''] cpuinfo)))"

text \<open>
  The loop of \<^verbatim>\<open>raplcap_open_msrs\<close> over the buffers read from the pipe. Each one is a
  row of two numbers, of which the source says: the first column is the socket, the
  second column is the core id; its variables are named accordingly. The arrays
  \<^verbatim>\<open>coreids\<close> and \<^verbatim>\<open>coreids_found\<close> have one entry for each socket.
\<close>

fun scan_rows ::
  "32 word \<Rightarrow> string list \<Rightarrow> 32 word list \<Rightarrow> bool list \<Rightarrow> errno + (32 word list \<times> bool list)" where
  "scan_rows sockets [] coreids coreids_found = Inr (coreids, coreids_found)"
| "scan_rows sockets (output # rest) coreids coreids_found =
     (case sscanf_u_u output of
        None \<Rightarrow> Inl ENOENT
      | Some (socket, core) \<Rightarrow>
          if sockets \<le> socket then Inl EINVAL
          else if \<not> coreids_found ! unat socket \<or> core < coreids ! unat socket
          then scan_rows sockets rest (coreids[unat socket := core])
                 (coreids_found[unat socket := True])
          else scan_rows sockets rest coreids coreids_found)"

text \<open>The part of \<^verbatim>\<open>raplcap_open_msrs\<close> between \<^verbatim>\<open>popen\<close> and the first \<^verbatim>\<open>open_msr\<close>: the
  core of every socket, or the error with which the function returns \<open>-1\<close>.\<close>

definition find_coreids :: "32 word \<Rightarrow> string list \<Rightarrow> errno + 32 word list" where
  "find_coreids sockets ls =
     (case scan_rows sockets (fgets_all ls)
             (replicate (unat sockets) 0) (replicate (unat sockets) False) of
        Inl e \<Rightarrow> Inl e
      | Inr (coreids, coreids_found) \<Rightarrow>
          if list_all (\<lambda>found. found) coreids_found then Inr coreids else Inl ENOENT)"

text \<open>\<open>open_msr core\<close> is the outcome of the source's \<^verbatim>\<open>open_msr\<close> in the environment: a
  descriptor, or the errno with which it returns \<open>-1\<close>.\<close>

fun open_loop ::
  "(32 word \<Rightarrow> errno + int) \<Rightarrow> 32 word list \<Rightarrow> nat \<Rightarrow> int list \<Rightarrow> (errno + unit) \<times> int list" where
  "open_loop open_msr [] i fdl = (Inr (), fdl)"
| "open_loop open_msr (core # rest) i fdl =
     (case open_msr core of
        Inl e \<Rightarrow> (Inl e, fdl[i := - 1])
      | Inr fd \<Rightarrow> open_loop open_msr rest (Suc i) (fdl[i := fd]))"

text \<open>
  \<open>cpuinfo\<close> is \<open>None\<close> when \<^verbatim>\<open>popen\<close> yields no stream, and otherwise the lines of
  \<^verbatim>\<open>/proc/cpuinfo\<close> on which the command runs. The result is what the function returns
  (\<open>Inr ()\<close> for 0) and the array \<^verbatim>\<open>fds\<close> afterwards. The function asserts that there is at
  least one socket; the array must have room for every socket.
\<close>

definition raplcap_open_msrs ::
  "32 word \<Rightarrow> string list option \<Rightarrow> (32 word \<Rightarrow> errno + int) \<Rightarrow> int list
     \<Rightarrow> ((errno + unit) \<times> int list) option" where
  "raplcap_open_msrs sockets cpuinfo open_msr fdl =
     (if sockets = 0 \<or> length fdl < unat sockets then None
      else (case cpuinfo of
              None \<Rightarrow> Some (Inr (), fdl)
            | Some ls \<Rightarrow>
               (case find_coreids sockets (socket_core_cmd ls) of
                  Inl e \<Rightarrow> Some (Inl e, fdl)
                | Inr coreids \<Rightarrow> Some (open_loop open_msr coreids 0 fdl))))"

section \<open>Notions used in the statements\<close>

text \<open>The unsigned number that the bits \<open>first\<close>, ..., \<open>last\<close> of a word spell.\<close>

definition bits_of :: "64 word \<Rightarrow> nat \<Rightarrow> nat \<Rightarrow> nat" where
  "bits_of w first last' = (unat w div 2 ^ first) mod 2 ^ (last' - first + 1)"

text \<open>The word \<open>w\<close> with the bits \<open>first\<close>, ..., \<open>last\<close> replaced by the low bits of \<open>v\<close>.\<close>

definition put_field :: "64 word \<Rightarrow> 64 word \<Rightarrow> nat \<Rightarrow> nat \<Rightarrow> 64 word" where
  "put_field w v first last' =
     (w AND NOT (push_bit first (mask (last' - first + 1)))) OR
     (push_bit first v AND push_bit first (mask (last' - first + 1)))"

text \<open>The raw values that the encoder stores, and the encoder as a function on words:
  auxiliary definitions, to which the proofs reduce the source's functions.\<close>

definition time_raw_A ::
  "(real option \<Rightarrow> 64 word) \<Rightarrow> (real \<Rightarrow> real) \<Rightarrow> raplcap_msr \<Rightarrow> nat \<Rightarrow> real \<Rightarrow> 64 word" where
  "time_raw_A conv lg st z t =
     double_to_u64 conv (log2_double lg (div_double (4 * t) (time_units st * (real z + 4))))"

definition time_raw_B ::
  "(real option \<Rightarrow> 64 word) \<Rightarrow> (real \<Rightarrow> real) \<Rightarrow> nat \<Rightarrow> real \<Rightarrow> 64 word" where
  "time_raw_B conv lg z t = double_to_u64 conv (log2_double lg (div_double t (1 + real z / 10)))"

definition pwr_raw :: "(real option \<Rightarrow> 64 word) \<Rightarrow> raplcap_msr \<Rightarrow> real \<Rightarrow> 64 word" where
  "pwr_raw conv st p = double_to_u64 conv (div_double p (power_units st))"

definition put_limit_A ::
  "(real option \<Rightarrow> 64 word) \<Rightarrow> (real \<Rightarrow> real) \<Rightarrow> raplcap_msr \<Rightarrow> nat \<Rightarrow> raplcap_limit option \<Rightarrow> 64 word \<Rightarrow> 64 word" where
  "put_limit_A conv lg st off lmt w =
     (case lmt of
        None \<Rightarrow> w
      | Some l \<Rightarrow>
          (let m = (if 0 < watts l then put_field w (pwr_raw conv st (watts l)) off (off + 14) else w)
           in if 0 < seconds l
              then put_field m (time_raw_A conv lg st (bits_of w (off + 22) (off + 23)) (seconds l))
                     (off + 17) (off + 21)
              else m))"

definition put_limit_B ::
  "(real option \<Rightarrow> 64 word) \<Rightarrow> (real \<Rightarrow> real) \<Rightarrow> raplcap_msr \<Rightarrow> raplcap_limit option \<Rightarrow> 64 word \<Rightarrow> 64 word" where
  "put_limit_B conv lg st lmt w =
     (case lmt of
        None \<Rightarrow> w
      | Some l \<Rightarrow>
          (let m = (if 0 < watts l then put_field w (pwr_raw conv st (watts l)) 0 14 else w)
           in if 0 < seconds l
              then put_field m (time_raw_B conv lg (bits_of w 22 23) (seconds l)) 17 21
              else m))"

text \<open>A limit component is requested when its structure is supplied and the component is
  strictly positive.\<close>

definition requested :: "raplcap_limit option \<Rightarrow> (raplcap_limit \<Rightarrow> real) \<Rightarrow> bool" where
  "requested lmt component = (case lmt of None \<Rightarrow> False | Some l \<Rightarrow> 0 < component l)"

text \<open>The two classes of zones, and the place of the register of a zone in a valid session:
  the state of the session, the descriptor of the socket and the offset of the register.\<close>

definition class_A :: "raplcap_zone \<Rightarrow> bool" where
  "class_A zone = (zone = RAPLCAP_ZONE_PACKAGE \<or> zone = RAPLCAP_ZONE_PSYS)"

definition class_B :: "raplcap_zone \<Rightarrow> bool" where
  "class_B zone =
     (zone = RAPLCAP_ZONE_CORE \<or> zone = RAPLCAP_ZONE_UNCORE \<or> zone = RAPLCAP_ZONE_DRAM)"

definition zone_register ::
  "raplcap option \<Rightarrow> 32 word \<Rightarrow> raplcap_zone \<Rightarrow> (raplcap_msr \<times> int \<times> int) option" where
  "zone_register rc socket zone =
     (case rc of
        None \<Rightarrow> None
      | Some r \<Rightarrow>
         (case state r of
            None \<Rightarrow> None
          | Some st \<Rightarrow>
             if socket < nsockets r \<and> (class_A zone \<or> class_B zone)
             then map_option (\<lambda>fd. (st, fd, zone_to_msr_offset zone)) (fd_of_socket st socket)
             else None))"

text \<open>The limits that a register word spells.\<close>

definition decode_A :: "raplcap_msr \<Rightarrow> 64 word \<Rightarrow> nat \<Rightarrow> raplcap_limit" where
  "decode_A st w off =
     \<lparr>seconds = 2 ^ bits_of w (off + 17) (off + 21) *
                 (1 + real (bits_of w (off + 22) (off + 23)) / 4) * time_units st,
      watts = power_units st * real (bits_of w off (off + 14))\<rparr>"

definition decode_B :: "raplcap_msr \<Rightarrow> 64 word \<Rightarrow> raplcap_limit" where
  "decode_B st w =
     \<lparr>seconds = 2 ^ bits_of w 17 21 * (1.0 + 0.1 * real (bits_of w 22 23)) * time_units st,
      watts = power_units st * real (bits_of w 0 14)\<rparr>"

text \<open>A session with one socket, power unit 1/8 W and time unit 1/1024 s, and devices whose
  registers all hold 0: the concrete inputs of the examples.\<close>

definition example_state :: raplcap_msr where
  "example_state = \<lparr>fds = Some [3], power_units = 1 / 8, time_units = 1 / 1024\<rparr>"

definition example_session :: "raplcap option" where
  "example_session = Some \<lparr>nsockets = 1, state = Some example_state\<rparr>"

definition example_dev :: msr_dev where
  "example_dev = (\<lambda>_. Inr 0)"

text \<open>
  An implementation that converts an unrepresentable number as the compilers for x86-64
  do when it is negative and above \<open>- (2 ^ 63)\<close> (it is truncated to a signed integer of 64
  bits, which is read as unsigned), and to 0 otherwise; a library whose \<^verbatim>\<open>log2\<close> returns the
  logarithm itself (the arguments of the examples are powers of two, whose logarithm is a
  whole number); and devices on which every write succeeds.
\<close>

definition example_conv :: "real option \<Rightarrow> 64 word" where
  "example_conv d =
     (case d of
        None \<Rightarrow> 0
      | Some x \<Rightarrow> if x \<le> - 1 \<and> - (2 ^ 63) < x then word_of_int \<lceil>x\<rceil> else 0)"

definition example_log2 :: "real \<Rightarrow> real" where
  "example_log2 = log 2"

definition example_pwrite :: pwrite_outcome where
  "example_pwrite = (\<lambda>_ _ _. None)"

text \<open>Devices on which every write fails with errno 28 (\<open>ENOSPC\<close>), as on \<^verbatim>\<open>/dev/full\<close>.\<close>

definition full_pwrite :: pwrite_outcome where
  "full_pwrite = (\<lambda>_ _ _. Some (EOTHER 28))"

text \<open>
  What the statements on the time window assume of the library's \<^verbatim>\<open>log2\<close>: for an argument
  between two neighbouring powers of two, the result lies between the two exponents. The
  logarithm itself is such a function, and so is every rounded one that is monotone and
  exact on the powers of two.
\<close>

definition log2_brackets :: "(real \<Rightarrow> real) \<Rightarrow> bool" where
  "log2_brackets lg =
     (\<forall>k x. 2 ^ k \<le> x \<and> x \<le> 2 ^ (k + 1) \<longrightarrow> real k \<le> lg x \<and> lg x \<le> real k + 1)"

text \<open>The coarsest such function: the logarithm rounded up to the next whole number.\<close>

definition rounded_up_log2 :: "real \<Rightarrow> real" where
  "rounded_up_log2 x = real_of_int \<lceil>log 2 x\<rceil>"

text \<open>
  An operating system in which closing descriptor 3 fails with errno 5 (\<open>EIO\<close>) and closing
  descriptor 4 fails with errno 9 (\<open>EBADF\<close>); its state is the list of the descriptors on
  which \<^verbatim>\<open>close\<close> was called. A session with three sockets on the descriptors 3, 4, 5.
\<close>

definition example_close :: "int list \<Rightarrow> int \<Rightarrow> errno option \<times> int list" where
  "example_close k fd =
     (if fd = 3 then Some (EOTHER 5) else if fd = 4 then Some (EOTHER 9) else None, k @ [fd])"

definition example_session3 :: raplcap where
  "example_session3 =
     \<lparr>nsockets = 3,
      state = Some \<lparr>fds = Some [3, 4, 5], power_units = 1 / 8, time_units = 1 / 1024\<rparr>\<rparr>"

text \<open>
  Lines of \<^verbatim>\<open>/proc/cpuinfo\<close> for a list of logical CPUs, each given by its processor
  number, its physical id and its core id (of the many fields of a record, those that the
  two commands of the source select), and a machine with eleven sockets, physical ids 0 to
  10, one logical CPU each.
\<close>

fun show_nat :: "nat \<Rightarrow> string" where
  "show_nat n =
     (if n < 10 then [''0123456789'' ! n]
      else show_nat (n div 10) @ [''0123456789'' ! (n mod 10)])"

definition cpuinfo_record :: "nat \<times> nat \<times> nat \<Rightarrow> string list" where
  "cpuinfo_record cpu =
     (case cpu of (processor, physical_id, core_id) \<Rightarrow>
        [''processor'' @ [tab] @ '': '' @ show_nat processor,
         ''physical id'' @ [tab] @ '': '' @ show_nat physical_id,
         ''core id'' @ [tab, tab] @ '': '' @ show_nat core_id,
         ''''])"

definition cpuinfo_of :: "(nat \<times> nat \<times> nat) list \<Rightarrow> string list" where
  "cpuinfo_of cpus = concat (map cpuinfo_record cpus)"

definition physical_ids :: "(nat \<times> nat \<times> nat) list \<Rightarrow> nat list" where
  "physical_ids cpus = map (fst \<circ> snd) cpus"

definition eleven_sockets :: "(nat \<times> nat \<times> nat) list" where
  "eleven_sockets = map (\<lambda>i. (i, i, 0)) [0..<11]"

text \<open>The buffers that the loop of \<^verbatim>\<open>raplcap_open_msrs\<close> reads when the command runs on the
  given lines of \<^verbatim>\<open>/proc/cpuinfo\<close>, and the numbers that the rows name for a socket in their
  second column, which the source calls the core ids.\<close>

definition discovery_rows :: "string list \<Rightarrow> string list" where
  "discovery_rows cpuinfo = fgets_all (socket_core_cmd cpuinfo)"

definition cores_seen :: "string list \<Rightarrow> 32 word \<Rightarrow> 32 word set" where
  "cores_seen rows socket = {core. \<exists>row \<in> set rows. sscanf_u_u row = Some (socket, core)}"

text \<open>The invariant of the loop over the rows: a socket is marked as found exactly when
  a row that was read names it, and then its entry is the smallest number that these rows
  name for it.\<close>

definition rows_inv :: "nat \<Rightarrow> string list \<Rightarrow> 32 word list \<Rightarrow> bool list \<Rightarrow> bool" where
  "rows_inv n rows cs fs =
     (length cs = n \<and> length fs = n \<and>
      (\<forall>s. unat s < n \<longrightarrow>
         (fs ! unat s \<longleftrightarrow> cores_seen rows s \<noteq> {}) \<and>
         (fs ! unat s \<longrightarrow> cs ! unat s = Min (cores_seen rows s))))"

text \<open>The processor numbers and the core ids of the logical CPUs of a socket.\<close>

definition processors_of :: "(nat \<times> nat \<times> nat) list \<Rightarrow> nat \<Rightarrow> nat set" where
  "processors_of cpus s = {p. \<exists>c. (p, s, c) \<in> set cpus}"

definition core_ids_of :: "(nat \<times> nat \<times> nat) list \<Rightarrow> nat \<Rightarrow> nat set" where
  "core_ids_of cpus s = {c. \<exists>p. (p, s, c) \<in> set cpus}"

text \<open>The topology of the spec's example: four logical CPUs, the processors 0 to 3, with
  the physical ids 0, 0, 1, 1 and the core ids 0, 4, 1, 5.\<close>

definition example_cpus :: "(nat \<times> nat \<times> nat) list" where
  "example_cpus = [(0, 0, 0), (1, 0, 4), (2, 1, 1), (3, 1, 5)]"

text \<open>A text with a \<^verbatim>\<open>processor\<close> line and nothing else.\<close>

definition lone_processor :: "string list" where
  "lone_processor = [''processor'' @ [tab] @ '': 0'']"

text \<open>An environment in which the registers of every processor can be opened: those of
  processor \<open>n\<close> on descriptor \<open>3 + n\<close>.\<close>

definition example_open_msr :: "32 word \<Rightarrow> errno + int" where
  "example_open_msr core = Inr (3 + uint core)"

section \<open>Bit fields\<close>

lemma shl_int_1: "shl_int 1 n = (if n < 31 then Some (2 ^ n) else None)"
proof -
  have "((2::int) ^ n < 2 ^ 31) = (n < 31)"
    by (rule power_strict_increasing_iff) simp
  then show ?thesis by (auto simp: shl_int_def)
qed

lemma get_bits_eq:
  "first \<le> last' \<Longrightarrow> last' < 64 \<Longrightarrow> last' - first < 30 \<Longrightarrow>
   get_bits w first last' = Some (take_bit (last' - first + 1) (drop_bit first w))"
  by (simp add: get_bits_def shl_int_1 take_bit_eq_mask mask_eq_exp_minus_1)

lemma unat_field: "unat (take_bit n (drop_bit first (w :: 64 word))) = (unat w div 2 ^ first) mod 2 ^ n"
  unfolding unsigned_take_bit_eq unat_drop_bit_eq by (simp add: take_bit_eq_mod drop_bit_eq_div)

lemma bits_of_unat:
  "bits_of w first last' = unat (take_bit (last' - first + 1) (drop_bit first w))"
  by (simp add: bits_of_def unat_field)

lemma get_bits_bits_of:
  "first \<le> last' \<Longrightarrow> last' < 64 \<Longrightarrow> last' - first < 30 \<Longrightarrow>
   \<exists>x. get_bits w first last' = Some x \<and> unat x = bits_of w first last'"
  by (simp add: get_bits_eq bits_of_unat)

lemma replace_bits_put:
  "first \<le> last' \<Longrightarrow> last' < 64 \<Longrightarrow> last' - first < 63 \<Longrightarrow>
   replace_bits w v first last' = Some (put_field w v first last')"
  by (simp add: replace_bits_def shl_u64_def mask_eq_exp_minus_1 put_field_def)

lemma bit_put_field:
  "first \<le> last' \<Longrightarrow> last' < 64 \<Longrightarrow> bit (put_field w v first last') n =
     (if first \<le> n \<and> n \<le> last' then bit v (n - first) else bit w n)"
  by (auto simp: put_field_def bit_simps dest: bit_imp_le_length)

lemma field_put_same:
  "first \<le> last' \<Longrightarrow> last' < 64 \<Longrightarrow>
   take_bit (last' - first + 1) (drop_bit first (put_field w v first last')) =
   take_bit (last' - first + 1) v"
  by (rule bit_eqI) (auto simp: bit_simps bit_put_field)

lemma field_put_other:
  "first \<le> last' \<Longrightarrow> last' < 64 \<Longrightarrow> f \<le> l \<Longrightarrow> l < first \<or> last' < f \<Longrightarrow>
   take_bit (l - f + 1) (drop_bit f (put_field w v first last')) =
   take_bit (l - f + 1) (drop_bit f w)"
  by (rule bit_eqI) (auto simp: bit_simps bit_put_field)

lemma bits_of_put_same:
  "first \<le> last' \<Longrightarrow> last' < 64 \<Longrightarrow>
   bits_of (put_field w v first last') first last' = unat v mod 2 ^ (last' - first + 1)"
proof -
  assume a: "first \<le> last'" "last' < 64"
  have "bits_of (put_field w v first last') first last' = unat (take_bit (last' - first + 1) v)"
    unfolding bits_of_unat by (simp only: field_put_same [OF a])
  also have "\<dots> = unat v mod 2 ^ (last' - first + 1)"
    unfolding unsigned_take_bit_eq by (simp only: take_bit_eq_mod)
  finally show ?thesis .
qed

lemma bits_of_put_other:
  "first \<le> last' \<Longrightarrow> last' < 64 \<Longrightarrow> f \<le> l \<Longrightarrow> l < first \<or> last' < f \<Longrightarrow>
   bits_of (put_field w v first last') f l = bits_of w f l"
  by (simp only: bits_of_unat field_put_other)

lemma u64_to_double_field:
  "u64_to_double (take_bit n (drop_bit first w)) = real ((unat w div 2 ^ first) mod 2 ^ n)"
  by (simp only: u64_to_double_def unat_field)

lemma get_bits_some:
  "first \<le> last' \<Longrightarrow> last' < 64 \<Longrightarrow> last' - first < 30 \<Longrightarrow>
   get_bits w first last' = Some (word_of_nat (bits_of w first last'))"
  by (simp add: get_bits_eq bits_of_unat)

lemma u64_to_double_bits_of:
  "last' < 64 \<Longrightarrow> u64_to_double (word_of_nat (bits_of w first last')) = real (bits_of w first last')"
  by (simp add: bits_of_unat u64_to_double_def)

lemma bits_of_le: "bits_of w first last' < 2 ^ (last' - first + 1)"
  by (simp add: bits_of_def)

lemma to_time_window_F_field:
  "to_time_window_F (word_of_nat (bits_of w 22 23)) = Some (1 + real (bits_of w 22 23) / 10)"
proof -
  have "bits_of w 22 23 < 4" using bits_of_le [of w 22 23] by simp
  then have "(word_of_nat (bits_of w 22 23) :: 64 word) \<le> 3"
    by (simp add: word_le_nat_alt unat_of_nat take_bit_nat_eq_self)
  then show ?thesis
    by (simp add: to_time_window_F_def u64_to_double_bits_of)
qed

lemma set_pkg_platform_eq:
  "set_pkg_platform conv lg w st ll ls =
     Some (put_limit_A conv lg st 32 ls (put_limit_A conv lg st 0 ll w))"
  by (cases ll; cases ls)
     (simp_all add: set_pkg_platform_def put_limit_A_def Let_def replace_bits_put get_bits_some
        u64_to_double_bits_of bits_of_put_other pwr_raw_def time_raw_A_def)

lemma set_core_uncore_dram_eq:
  "set_core_uncore_dram conv lg w st ll = Some (put_limit_B conv lg st ll w)"
  by (cases ll)
     (simp_all add: set_core_uncore_dram_def put_limit_B_def Let_def replace_bits_put get_bits_some
        u64_to_double_bits_of bits_of_put_other pwr_raw_def time_raw_B_def to_time_window_F_field)

section \<open>Enabling and disabling\<close>

lemma get_bits_bit: "n < 64 \<Longrightarrow> get_bits w n n = Some (if bit w n then 1 else 0)"
  by (simp add: get_bits_eq bit_iff_odd_drop_bit mod_2_eq_odd)

lemma bit_put_flag:
  "k < 64 \<Longrightarrow> bit (put_field w (of_bool b) k k) n = (if n = k then b else bit w n)"
  by (simp add: bit_put_field bit_simps)

lemma bit_put_0: "k < 64 \<Longrightarrow> bit (put_field w 0 k k) n = (n \<noteq> k \<and> bit w n)"
  using bit_put_flag [of k w False n] by simp

lemma bit_put_1: "k < 64 \<Longrightarrow> bit (put_field w 1 k k) n = (n = k \<or> bit w n)"
  using bit_put_flag [of k w True n] by simp

lemma set_pkg_platform_enabled_eq:
  "set_pkg_platform_enabled w v =
     Some (put_field (put_field (put_field (put_field w (of_bool (v \<noteq> 0)) 15 15)
        (of_bool (v \<noteq> 0)) 47 47) (of_bool (v \<noteq> 0)) 16 16) (of_bool (v \<noteq> 0)) 48 48)"
  by (simp add: set_pkg_platform_enabled_def replace_bits_put Let_def)

lemma set_core_uncore_dram_enabled_eq:
  "set_core_uncore_dram_enabled w v =
     Some (put_field (put_field w (of_bool (v \<noteq> 0)) 15 15) (of_bool (v \<noteq> 0)) 16 16)"
  by (simp add: set_core_uncore_dram_enabled_def replace_bits_put Let_def)

lemma bit_set_pkg:
  "\<exists>w'. set_pkg_platform_enabled w v = Some w' \<and>
     (\<forall>n. bit w' n = (if n \<in> {15, 16, 47, 48} then v \<noteq> 0 else bit w n))"
  by (auto simp: set_pkg_platform_enabled_eq bit_put_flag bit_put_0 bit_put_1)

lemma bit_set_core:
  "\<exists>w'. set_core_uncore_dram_enabled w v = Some w' \<and>
     (\<forall>n. bit w' n = (if n \<in> {15, 16} then v \<noteq> 0 else bit w n))"
  by (auto simp: set_core_uncore_dram_enabled_eq bit_put_flag bit_put_0 bit_put_1)

lemma is_pkg_eq: "is_pkg_platform_enabled w = Some (if bit w 15 \<and> bit w 47 then 1 else 0)"
  by (simp add: is_pkg_platform_enabled_def get_bits_bit)

lemma is_core_eq: "is_core_uncore_dram_enabled w = Some (if bit w 15 then 1 else 0)"
  by (simp add: is_core_uncore_dram_enabled_def get_bits_bit u64_to_int_def)

lemma bits_of_cong:
  "first \<le> last' \<Longrightarrow> (\<And>n. first \<le> n \<Longrightarrow> n \<le> last' \<Longrightarrow> bit w' n = bit w n) \<Longrightarrow>
   bits_of w' first last' = bits_of w first last'"
proof -
  assume le: "first \<le> last'"
  assume a: "\<And>n. first \<le> n \<Longrightarrow> n \<le> last' \<Longrightarrow> bit w' n = bit w n"
  have "take_bit (last' - first + 1) (drop_bit first w') = take_bit (last' - first + 1) (drop_bit first w)"
    using le by (intro bit_eqI) (auto simp: bit_simps a)
  then show ?thesis by (simp only: bits_of_unat)
qed

text \<open>A mask that is computed in \<^verbatim>\<open>int\<close> and then converted to \<^verbatim>\<open>uint64_t\<close> is the sign
  extension of 32 bits. No such mask selects the 33 bits 0 to 32 of a word: it keeps
  bit 63 whenever it keeps bit 32.\<close>

lemma no_int_mask_of_33_bits:
  "(2 ^ 63 + 2 ^ 32 :: 64 word) AND scast (m :: 32 word) \<noteq> 2 ^ 32"
proof
  assume a: "(2 ^ 63 + 2 ^ 32 :: 64 word) AND scast m = 2 ^ 32"
  have w: "bit (2 ^ 63 + 2 ^ 32 :: 64 word) 32" "bit (2 ^ 63 + 2 ^ 32 :: 64 word) 63"
    by (simp_all add: bit_iff_odd_drop_bit drop_bit_eq_div)
  have "bit ((2 ^ 63 + 2 ^ 32 :: 64 word) AND scast m) 32 = bit m 31"
    using w(1) by (simp add: bit_simps)
  moreover have "bit ((2 ^ 63 + 2 ^ 32 :: 64 word) AND scast m) 63 = bit m 31"
    using w(2) by (simp add: bit_simps)
  moreover have "bit (2 ^ 32 :: 64 word) 32" "\<not> bit (2 ^ 32 :: 64 word) 63"
    by (simp_all add: bit_simps)
  ultimately show False using a by simp
qed

text \<open>
  Claim C9 says that \<^verbatim>\<open>replace_bits\<close> and \<^verbatim>\<open>get_bits\<close> are exact for every range with
  \<open>first \<le> last < 64\<close>. Both functions assert exactly this precondition, but the code is
  not defined on all of it. \<^verbatim>\<open>get_bits\<close> builds its mask from the \<^verbatim>\<open>int\<close> constant 1, so
  that for a range of 31 bits or more (here bits 0 to 32) the shift \<^verbatim>\<open>1 << 33\<close> is
  undefined and no value is read back, although \<^verbatim>\<open>replace_bits\<close>, which casts the
  constant to \<^verbatim>\<open>uint64_t\<close>, has stored the value (and whatever \<^verbatim>\<open>int\<close> an implementation
  computes for the shift, the mask is wrong: lemma \<open>no_int_mask_of_33_bits\<close>).
  \<^verbatim>\<open>replace_bits\<close> itself shifts by 64 for the full range, bits 0 to 63, which is
  undefined as well. For narrower ranges both are exact: lemmas \<open>get_bits_eq\<close>,
  \<open>replace_bits_put\<close>, \<open>bit_put_field\<close> and \<open>field_put_same\<close>.
\<close>

theorem get_bits_wide_range:
  "replace_bits 0 (2 ^ 32) 0 32 = Some (2 ^ 32) \<and> get_bits (2 ^ 32) 0 32 = None \<and>
   replace_bits 0 1 0 63 = None"
  by (simp add: replace_bits_def shl_u64_def get_bits_def shl_int_def)

lemma zone_offset_nonneg: "class_A zone \<or> class_B zone \<Longrightarrow> \<not> zone_to_msr_offset zone < 0"
  by (cases zone)
     (simp_all add: class_A_def class_B_def MSR_PKG_POWER_LIMIT_def MSR_PP0_POWER_LIMIT_def
        MSR_PP1_POWER_LIMIT_def MSR_DRAM_POWER_LIMIT_def MSR_PLATFORM_POWER_LIMIT_def)

lemma zone_registerD:
  "zone_register rc socket zone = Some (st, fd, off) \<Longrightarrow>
   \<exists>r. rc = Some r \<and> state r = Some st \<and> \<not> nsockets r \<le> socket \<and>
       fd_of_socket st socket = Some fd \<and> off = zone_to_msr_offset zone \<and>
       (class_A zone \<or> class_B zone) \<and> \<not> off < 0"
  by (auto simp: zone_register_def zone_offset_nonneg split: option.splits if_splits)

lemma set_zone_enabled_ok:
  assumes "zone_register rc socket zone = Some (st, fd, off)" and "dev (fd, off) = Inr w"
  shows "raplcap_set_zone_enabled pw socket rc zone v dev =
           map_option
             (\<lambda>w'. case pw dev (fd, off) w' of
                     Some e \<Rightarrow> Inl e
                   | None \<Rightarrow> Inr (dev((fd, off) := Inr w')))
             (if class_A zone then set_pkg_platform_enabled w v
              else set_core_uncore_dram_enabled w v)"
proof -
  from zone_registerD [OF assms(1)] obtain r where r: "rc = Some r" "state r = Some st"
    "\<not> nsockets r \<le> socket" "fd_of_socket st socket = Some fd" "off = zone_to_msr_offset zone"
    "class_A zone \<or> class_B zone" "\<not> off < 0" by blast
  show ?thesis
    using r assms(2)
    by (cases zone)
       (auto simp: raplcap_set_zone_enabled_def read_msr_by_offset_def write_msr_by_offset_def
          class_A_def class_B_def set_pkg_platform_enabled_eq set_core_uncore_dram_enabled_eq)
qed

lemma set_zone_enabled_Inr:
  assumes "raplcap_set_zone_enabled pw socket rc zone v dev = Some (Inr dev')"
  shows "\<exists>st fd off w. zone_register rc socket zone = Some (st, fd, off) \<and> dev (fd, off) = Inr w"
  using assms
  by (cases zone)
     (auto simp: raplcap_set_zone_enabled_def zone_register_def read_msr_by_offset_def
        class_A_def class_B_def bind_eq_Some_conv
        split: option.splits if_splits sum.splits)

lemma set_zone_enabled_Inr_dev:
  assumes "zone_register rc socket zone = Some (st, fd, off)" and "dev (fd, off) = Inr w"
    and "raplcap_set_zone_enabled pw socket rc zone v dev = Some (Inr dev')"
  shows "\<exists>w'. (if class_A zone then set_pkg_platform_enabled w v
               else set_core_uncore_dram_enabled w v) = Some w' \<and>
              dev' = dev((fd, off) := Inr w')"
  using assms(3) unfolding set_zone_enabled_ok [where dev = dev, OF assms(1,2)]
  by (auto split: option.splits)

section \<open>The public functions on a valid session\<close>

lemma is_zone_enabled_ok:
  assumes "zone_register rc socket zone = Some (st, fd, off)" and "dev (fd, off) = Inr w"
  shows "raplcap_is_zone_enabled socket rc zone dev =
           Some (Inr (if (if class_A zone then bit w 15 \<and> bit w 47 else bit w 15) then 1 else 0))"
proof -
  from zone_registerD [OF assms(1)] obtain r where r: "rc = Some r" "state r = Some st"
    "\<not> nsockets r \<le> socket" "fd_of_socket st socket = Some fd" "off = zone_to_msr_offset zone"
    "class_A zone \<or> class_B zone" "\<not> off < 0" by blast
  show ?thesis
    using r assms(2)
    by (cases zone)
       (auto simp: raplcap_is_zone_enabled_def read_msr_by_offset_def
          class_A_def class_B_def is_pkg_eq is_core_eq)
qed

lemma set_limits_ok:
  assumes "zone_register rc socket zone = Some (st, fd, off)" and "dev (fd, off) = Inr w"
  shows "raplcap_set_limits conv lg pw socket rc zone ll ls dev =
           Some (case pw dev (fd, off)
                        (if class_A zone
                         then put_limit_A conv lg st 32 ls (put_limit_A conv lg st 0 ll w)
                         else put_limit_B conv lg st ll w) of
                   Some e \<Rightarrow> Inl e
                 | None \<Rightarrow>
                     Inr (dev((fd, off) := Inr
                       (if class_A zone
                        then put_limit_A conv lg st 32 ls (put_limit_A conv lg st 0 ll w)
                        else put_limit_B conv lg st ll w))))"
proof -
  from zone_registerD [OF assms(1)] obtain r where r: "rc = Some r" "state r = Some st"
    "\<not> nsockets r \<le> socket" "fd_of_socket st socket = Some fd" "off = zone_to_msr_offset zone"
    "class_A zone \<or> class_B zone" "\<not> off < 0" by blast
  show ?thesis
    using r assms(2)
    by (cases zone)
       (auto simp: raplcap_set_limits_def read_msr_by_offset_def write_msr_by_offset_def
          class_A_def class_B_def set_pkg_platform_eq set_core_uncore_dram_eq)
qed

lemma set_limits_Inr:
  assumes "raplcap_set_limits conv lg pw socket rc zone ll ls dev = Some (Inr dev')"
  shows "\<exists>st fd off w. zone_register rc socket zone = Some (st, fd, off) \<and> dev (fd, off) = Inr w"
  using assms
  by (cases zone)
     (auto simp: raplcap_set_limits_def zone_register_def read_msr_by_offset_def
        class_A_def class_B_def bind_eq_Some_conv
        split: option.splits if_splits sum.splits)

lemma set_limits_Inr_dev:
  assumes "zone_register rc socket zone = Some (st, fd, off)" and "dev (fd, off) = Inr w"
    and "raplcap_set_limits conv lg pw socket rc zone ll ls dev = Some (Inr dev')"
  shows "dev' = dev((fd, off) := Inr
           (if class_A zone then put_limit_A conv lg st 32 ls (put_limit_A conv lg st 0 ll w)
            else put_limit_B conv lg st ll w))"
  using assms(3) unfolding set_limits_ok [where dev = dev, OF assms(1,2)]
  by (auto split: option.splits)

lemma get_limits_ok:
  assumes "zone_register rc socket zone = Some (st, fd, off)" and "dev (fd, off) = Inr w"
  shows "raplcap_get_limits socket rc zone a b dev =
           (if class_A zone then map_option Inr (get_pkg_platform w st a b)
            else map_option (\<lambda>l. Inr (l, None)) (get_core_uncore_dram w st a))"
proof -
  from zone_registerD [OF assms(1)] obtain r where r: "rc = Some r" "state r = Some st"
    "\<not> nsockets r \<le> socket" "fd_of_socket st socket = Some fd" "off = zone_to_msr_offset zone"
    "class_A zone \<or> class_B zone" "\<not> off < 0" by blast
  show ?thesis
    using r assms(2)
    by (cases zone)
       (auto simp: raplcap_get_limits_def read_msr_by_offset_def class_A_def class_B_def)
qed

section \<open>Decoding and encoding limits\<close>

lemma pow_double_2: "pow_double 2 (real n) = 2 ^ n"
  by (simp add: pow_double_def powr_realpow)

lemma get_pkg_platform_eq:
  "get_pkg_platform w st a b =
     Some (if a then Some (decode_A st w 0) else None, if b then Some (decode_A st w 32) else None)"
  by (simp add: get_pkg_platform_def get_bits_some u64_to_double_bits_of pow_double_2
        to_raplcap_def decode_A_def Let_def)

lemma get_core_uncore_dram_eq:
  "get_core_uncore_dram w st a = Some (if a then Some (decode_B st w) else None)"
  by (simp add: get_core_uncore_dram_def get_bits_some u64_to_double_bits_of pow_double_2
        to_raplcap_def decode_B_def Let_def to_time_window_F_field)

text \<open>
  Claim C4: with the exponent \<open>Y\<close> in bits 17 to 21 and the fraction \<open>Z\<close> in bits 22 to 23,
  the decoded time window is \<open>2 ^ Y * (1 + Z / 4) * time_unit\<close> for class A and
  \<open>2 ^ Y * (1.0 + 0.1 * Z) * time_unit\<close> for class B (the short-term window of class A is
  decoded from bits 49 to 53 and 54 to 55 in the same way); with \<open>Y = 3\<close> and \<open>Z = 2\<close> the
  two classes yield \<open>8 * 1.5 * time_unit\<close> and \<open>8 * 1.2 * time_unit\<close>.
\<close>

theorem time_window_decode:
  "get_pkg_platform w st True True =
     Some (Some \<lparr>seconds = 2 ^ bits_of w 17 21 * (1 + real (bits_of w 22 23) / 4) * time_units st,
                 watts = power_units st * real (bits_of w 0 14)\<rparr>,
           Some \<lparr>seconds = 2 ^ bits_of w 49 53 * (1 + real (bits_of w 54 55) / 4) * time_units st,
                 watts = power_units st * real (bits_of w 32 46)\<rparr>) \<and>
   get_core_uncore_dram w st True =
     Some (Some \<lparr>seconds = 2 ^ bits_of w 17 21 * (1.0 + 0.1 * real (bits_of w 22 23)) * time_units st,
                 watts = power_units st * real (bits_of w 0 14)\<rparr>) \<and>
   (bits_of w 17 21 = 3 \<and> bits_of w 22 23 = 2 \<longrightarrow>
      map_option (map_option seconds \<circ> fst) (get_pkg_platform w st True False) =
        Some (Some (8 * 1.5 * time_units st)) \<and>
      map_option (map_option seconds) (get_core_uncore_dram w st True) =
        Some (Some (8 * 1.2 * time_units st)))"
  by (simp add: get_pkg_platform_eq get_core_uncore_dram_eq decode_A_def decode_B_def)

lemma put_limit_A_frame:
  assumes "off + 23 < 64" and "bit (put_limit_A conv lg st off lmt w) n \<noteq> bit w n"
  shows "(off \<le> n \<and> n \<le> off + 14 \<and> requested lmt watts) \<or>
         (off + 17 \<le> n \<and> n \<le> off + 21 \<and> requested lmt seconds)"
proof (cases lmt)
  case None
  with assms show ?thesis by (simp add: put_limit_A_def)
next
  case (Some l)
  with assms show ?thesis
    by (auto simp: put_limit_A_def requested_def Let_def bit_put_field split: if_splits)
qed

lemma put_limit_B_frame:
  assumes "bit (put_limit_B conv lg st lmt w) n \<noteq> bit w n"
  shows "(n \<le> 14 \<and> requested lmt watts) \<or> (17 \<le> n \<and> n \<le> 21 \<and> requested lmt seconds)"
proof (cases lmt)
  case None
  with assms show ?thesis by (simp add: put_limit_B_def)
next
  case (Some l)
  with assms show ?thesis
    by (auto simp: put_limit_B_def requested_def Let_def bit_put_field split: if_splits)
qed

lemma set_pkg_platform_frame:
  assumes "bit (put_limit_A conv lg st 32 ls (put_limit_A conv lg st 0 ll w)) n \<noteq> bit w n"
  shows "(n \<le> 14 \<and> requested ll watts) \<or> (17 \<le> n \<and> n \<le> 21 \<and> requested ll seconds) \<or>
         (32 \<le> n \<and> n \<le> 46 \<and> requested ls watts) \<or> (49 \<le> n \<and> n \<le> 53 \<and> requested ls seconds)"
proof (cases "bit (put_limit_A conv lg st 0 ll w) n = bit w n")
  case True
  with assms have "bit (put_limit_A conv lg st 32 ls (put_limit_A conv lg st 0 ll w)) n \<noteq>
      bit (put_limit_A conv lg st 0 ll w) n" by simp
  from put_limit_A_frame [OF _ this] show ?thesis by auto
next
  case False
  from put_limit_A_frame [OF _ this] show ?thesis by auto
qed

lemma put_limit_A_time:
  assumes "off + 23 < 64" and "0 < seconds l"
  shows "bits_of (put_limit_A conv lg st off (Some l) w) (off + 17) (off + 21) =
           unat (time_raw_A conv lg st (bits_of w (off + 22) (off + 23)) (seconds l)) mod 2 ^ 5"
  using assms by (simp add: put_limit_A_def Let_def bits_of_put_same)

lemma put_limit_B_time:
  assumes "0 < seconds l"
  shows "bits_of (put_limit_B conv lg st (Some l) w) 17 21 =
           unat (time_raw_B conv lg (bits_of w 22 23) (seconds l)) mod 2 ^ 5"
  using assms by (simp add: put_limit_B_def Let_def bits_of_put_same)

lemma put_limit_A_keeps:
  assumes "off + 23 < 64" and "f \<le> l" and "\<And>n. f \<le> n \<Longrightarrow> n \<le> l \<Longrightarrow>
     \<not> (off \<le> n \<and> n \<le> off + 14 \<and> requested lmt watts) \<and>
     \<not> (off + 17 \<le> n \<and> n \<le> off + 21 \<and> requested lmt seconds)"
  shows "bits_of (put_limit_A conv lg st off lmt w) f l = bits_of w f l"
proof (rule bits_of_cong [OF assms(2)])
  fix n assume "f \<le> n" "n \<le> l"
  from assms(3) [OF this] put_limit_A_frame [OF assms(1), of conv lg st lmt w n]
  show "bit (put_limit_A conv lg st off lmt w) n = bit w n" by blast
qed

lemma put_limit_B_keeps:
  assumes "f \<le> l" and "\<And>n. f \<le> n \<Longrightarrow> n \<le> l \<Longrightarrow>
     \<not> (n \<le> 14 \<and> requested lmt watts) \<and> \<not> (17 \<le> n \<and> n \<le> 21 \<and> requested lmt seconds)"
  shows "bits_of (put_limit_B conv lg st lmt w) f l = bits_of w f l"
proof (rule bits_of_cong [OF assms(1)])
  fix n assume "f \<le> n" "n \<le> l"
  from assms(2) [OF this] put_limit_B_frame [of conv lg st lmt w n]
  show "bit (put_limit_B conv lg st lmt w) n = bit w n" by blast
qed

text \<open>
  Claim C5: when a strictly positive time window is encoded, the new exponent is computed
  from the fraction bits \<open>Z\<close> that the register word holds at that moment: it is
  \<open>log2 ((4 * seconds) / (time_unit * (Z + 4)))\<close> for class A (for the long-term and for
  the short-term limit) and \<open>log2 (seconds / F Z)\<close> for class B, converted to an unsigned
  integer and truncated to the five bits of the exponent field; the fraction bits stay as
  they are.
\<close>

theorem time_window_encode:
  assumes "0 < seconds l"
  shows
  "(\<exists>w'. set_pkg_platform conv lg w st (Some l) ls = Some w' \<and>
      bits_of w' 17 21 =
        unat (double_to_u64 conv (log2_double lg
          (div_double (4 * seconds l) (time_units st * (real (bits_of w 22 23) + 4))))) mod 2 ^ 5 \<and>
      bits_of w' 22 23 = bits_of w 22 23) \<and>
   (\<exists>w'. set_pkg_platform conv lg w st ll (Some l) = Some w' \<and>
      bits_of w' 49 53 =
        unat (double_to_u64 conv (log2_double lg
          (div_double (4 * seconds l) (time_units st * (real (bits_of w 54 55) + 4))))) mod 2 ^ 5 \<and>
      bits_of w' 54 55 = bits_of w 54 55) \<and>
   (\<exists>w'. set_core_uncore_dram conv lg w st (Some l) = Some w' \<and>
      bits_of w' 17 21 =
        unat (double_to_u64 conv (log2_double lg
          (div_double (seconds l) (1.0 + 0.1 * real (bits_of w 22 23))))) mod 2 ^ 5 \<and>
      bits_of w' 22 23 = bits_of w 22 23)"
proof (intro conjI)
  let ?m = "put_limit_A conv lg st 0 (Some l) w"
  have "bits_of (put_limit_A conv lg st 32 ls ?m) 17 21 = bits_of ?m 17 21"
    by (rule put_limit_A_keeps) simp_all
  moreover have "bits_of (put_limit_A conv lg st 32 ls ?m) 22 23 = bits_of ?m 22 23"
    by (rule put_limit_A_keeps) simp_all
  moreover have "bits_of ?m 22 23 = bits_of w 22 23"
    by (rule put_limit_A_keeps) simp_all
  ultimately show "\<exists>w'. set_pkg_platform conv lg w st (Some l) ls = Some w' \<and>
      bits_of w' 17 21 =
        unat (double_to_u64 conv (log2_double lg
          (div_double (4 * seconds l) (time_units st * (real (bits_of w 22 23) + 4))))) mod 2 ^ 5 \<and>
      bits_of w' 22 23 = bits_of w 22 23"
    using put_limit_A_time [of 0 l conv lg st w] assms
    by (simp add: set_pkg_platform_eq time_raw_A_def)
next
  let ?m = "put_limit_A conv lg st 0 ll w"
  have "bits_of ?m 54 55 = bits_of w 54 55"
    by (rule put_limit_A_keeps) simp_all
  moreover have "bits_of (put_limit_A conv lg st 32 (Some l) ?m) 54 55 = bits_of ?m 54 55"
    by (rule put_limit_A_keeps) simp_all
  ultimately show "\<exists>w'. set_pkg_platform conv lg w st ll (Some l) = Some w' \<and>
      bits_of w' 49 53 =
        unat (double_to_u64 conv (log2_double lg
          (div_double (4 * seconds l) (time_units st * (real (bits_of w 54 55) + 4))))) mod 2 ^ 5 \<and>
      bits_of w' 54 55 = bits_of w 54 55"
    using put_limit_A_time [of 32 l conv lg st ?m] assms
    by (simp add: set_pkg_platform_eq time_raw_A_def)
next
  have "bits_of (put_limit_B conv lg st (Some l) w) 22 23 = bits_of w 22 23"
    by (rule put_limit_B_keeps) simp_all
  then show "\<exists>w'. set_core_uncore_dram conv lg w st (Some l) = Some w' \<and>
      bits_of w' 17 21 =
        unat (double_to_u64 conv (log2_double lg
          (div_double (seconds l) (1.0 + 0.1 * real (bits_of w 22 23))))) mod 2 ^ 5 \<and>
      bits_of w' 22 23 = bits_of w 22 23"
    using put_limit_B_time [of l conv lg st w] assms
    by (simp add: set_core_uncore_dram_eq time_raw_B_def)
qed

lemma set_pkg_platform_enabled_frame:
  "\<exists>w'. set_pkg_platform_enabled w v = Some w' \<and>
     (\<forall>n. n \<notin> {15, 16, 47, 48} \<longrightarrow> bit w' n = bit w n) \<and>
     bits_of w' 0 14 = bits_of w 0 14 \<and> bits_of w' 17 21 = bits_of w 17 21 \<and>
     bits_of w' 22 23 = bits_of w 22 23 \<and> bits_of w' 32 46 = bits_of w 32 46 \<and>
     bits_of w' 49 53 = bits_of w 49 53 \<and> bits_of w' 54 55 = bits_of w 54 55"
proof -
  obtain a where a: "set_pkg_platform_enabled w v = Some a"
    "\<And>n. bit a n = (if n \<in> {15, 16, 47, 48} then v \<noteq> 0 else bit w n)"
    using bit_set_pkg [of w v] by blast
  have "bits_of a f l = bits_of w f l"
    if "f \<le> l" "\<And>n. f \<le> n \<Longrightarrow> n \<le> l \<Longrightarrow> n \<notin> {15, 16, 47, 48}" for f l
    by (rule bits_of_cong [OF that(1)]) (use that(2) a(2) in auto)
  then show ?thesis using a by auto
qed

lemma set_core_uncore_dram_enabled_frame:
  "\<exists>w'. set_core_uncore_dram_enabled w v = Some w' \<and>
     (\<forall>n. n \<notin> {15, 16} \<longrightarrow> bit w' n = bit w n) \<and>
     bits_of w' 0 14 = bits_of w 0 14 \<and> bits_of w' 17 21 = bits_of w 17 21 \<and>
     bits_of w' 22 23 = bits_of w 22 23"
proof -
  obtain a where a: "set_core_uncore_dram_enabled w v = Some a"
    "\<And>n. bit a n = (if n \<in> {15, 16} then v \<noteq> 0 else bit w n)"
    using bit_set_core [of w v] by blast
  have "bits_of a f l = bits_of w f l"
    if "f \<le> l" "\<And>n. f \<le> n \<Longrightarrow> n \<le> l \<Longrightarrow> n \<notin> {15, 16}" for f l
    by (rule bits_of_cong [OF that(1)]) (use that(2) a(2) in auto)
  then show ?thesis using a by auto
qed

text \<open>
  Claim C10: enabling or disabling a zone changes at most bits 15, 16, 47 and 48 of the
  register word for class A, and at most bits 15 and 16 for class B; the power-limit and
  time-window fields keep their values. A successful \<^verbatim>\<open>raplcap_set_zone_enabled\<close> changes
  nothing but that register.
\<close>

theorem set_zone_enabled_frame:
  "(\<exists>w'. set_pkg_platform_enabled w v = Some w' \<and>
      (\<forall>n. n \<notin> {15, 16, 47, 48} \<longrightarrow> bit w' n = bit w n) \<and>
      bits_of w' 0 14 = bits_of w 0 14 \<and> bits_of w' 17 21 = bits_of w 17 21 \<and>
      bits_of w' 22 23 = bits_of w 22 23 \<and> bits_of w' 32 46 = bits_of w 32 46 \<and>
      bits_of w' 49 53 = bits_of w 49 53 \<and> bits_of w' 54 55 = bits_of w 54 55) \<and>
   (\<exists>w'. set_core_uncore_dram_enabled w v = Some w' \<and>
      (\<forall>n. n \<notin> {15, 16} \<longrightarrow> bit w' n = bit w n) \<and>
      bits_of w' 0 14 = bits_of w 0 14 \<and> bits_of w' 17 21 = bits_of w 17 21 \<and>
      bits_of w' 22 23 = bits_of w 22 23) \<and>
   (raplcap_set_zone_enabled pw socket rc zone v dev = Some (Inr dev') \<longrightarrow>
      (\<exists>st fd off old new.
         zone_register rc socket zone = Some (st, fd, off) \<and> dev (fd, off) = Inr old \<and>
         dev' = dev((fd, off) := Inr new) \<and>
         (\<forall>n. n \<notin> (if class_A zone then {15, 16, 47, 48} else {15, 16}) \<longrightarrow>
              bit new n = bit old n)))"
proof (intro conjI impI)
  assume r: "raplcap_set_zone_enabled pw socket rc zone v dev = Some (Inr dev')"
  from set_zone_enabled_Inr [OF r] obtain st fd off old where
    reg: "zone_register rc socket zone = Some (st, fd, off)" "dev (fd, off) = Inr old" by blast
  show "\<exists>st fd off old new.
         zone_register rc socket zone = Some (st, fd, off) \<and> dev (fd, off) = Inr old \<and>
         dev' = dev((fd, off) := Inr new) \<and>
         (\<forall>n. n \<notin> (if class_A zone then {15, 16, 47, 48} else {15, 16}) \<longrightarrow>
              bit new n = bit old n)"
  proof (cases "class_A zone")
    case True
    from set_pkg_platform_enabled_frame [of old v] obtain new where
      n: "set_pkg_platform_enabled old v = Some new"
         "\<forall>n. n \<notin> {15, 16, 47, 48} \<longrightarrow> bit new n = bit old n" by blast
    from set_zone_enabled_Inr_dev [OF reg r] True n(1)
    have "dev' = dev((fd, off) := Inr new)" by simp
    with reg n(2) True show ?thesis by auto
  next
    case False
    from set_core_uncore_dram_enabled_frame [of old v] obtain new where
      n: "set_core_uncore_dram_enabled old v = Some new"
         "\<forall>n. n \<notin> {15, 16} \<longrightarrow> bit new n = bit old n" by blast
    from set_zone_enabled_Inr_dev [OF reg r] False n(1)
    have "dev' = dev((fd, off) := Inr new)" by simp
    with reg n(2) False show ?thesis by auto
  qed
qed (rule set_pkg_platform_enabled_frame set_core_uncore_dram_enabled_frame)+

lemma example_register:
  "zone_register example_session 0 RAPLCAP_ZONE_PACKAGE = Some (example_state, 3, 0x610)"
  "zone_register example_session 0 RAPLCAP_ZONE_CORE = Some (example_state, 3, 0x638)"
  by (simp_all add: zone_register_def example_session_def example_state_def fd_of_socket_def
        class_A_def class_B_def MSR_PKG_POWER_LIMIT_def MSR_PP0_POWER_LIMIT_def)

text \<open>
  Claim C7: a zone of class A (package, psys) is reported enabled if and only if bits 15
  and 47 of its register are both set, a zone of class B (core, uncore, dram) if and only
  if bit 15 is set; setting the enabled state to \<open>v\<close> writes \<open>v\<close> into bits 15, 47, 16 and
  48 for class A and into bits 15 and 16 for class B, so that the enabled state read
  afterwards is \<open>v\<close>. This holds for the functions on words. For the public functions it
  holds on every register of a valid session that can be read:
  \<^verbatim>\<open>raplcap_set_zone_enabled\<close> computes that word and returns with the outcome of its
  write, which may fail on its own; and whenever it succeeds, on a register that keeps
  what is written to it, \<^verbatim>\<open>raplcap_is_zone_enabled\<close> reports \<open>v\<close> afterwards.
\<close>

theorem zone_enabled_bits:
  "is_pkg_platform_enabled w = Some (if bit w 15 \<and> bit w 47 then 1 else 0) \<and>
   is_core_uncore_dram_enabled w = Some (if bit w 15 then 1 else 0) \<and>
   (\<exists>w'. set_pkg_platform_enabled w v = Some w' \<and>
      bit w' 15 = (v \<noteq> 0) \<and> bit w' 47 = (v \<noteq> 0) \<and> bit w' 16 = (v \<noteq> 0) \<and> bit w' 48 = (v \<noteq> 0) \<and>
      is_pkg_platform_enabled w' = Some (if v \<noteq> 0 then 1 else 0)) \<and>
   (\<exists>w'. set_core_uncore_dram_enabled w v = Some w' \<and>
      bit w' 15 = (v \<noteq> 0) \<and> bit w' 16 = (v \<noteq> 0) \<and>
      is_core_uncore_dram_enabled w' = Some (if v \<noteq> 0 then 1 else 0)) \<and>
   (zone_register rc socket zone = Some (st, fd, off) \<and> dev (fd, off) = Inr w \<longrightarrow>
      raplcap_is_zone_enabled socket rc zone dev =
        Some (Inr (if (if class_A zone then bit w 15 \<and> bit w 47 else bit w 15) then 1 else 0)) \<and>
      (\<exists>w'. (if class_A zone then set_pkg_platform_enabled w v
              else set_core_uncore_dram_enabled w v) = Some w' \<and>
         raplcap_set_zone_enabled pw socket rc zone v dev =
           Some (case pw dev (fd, off) w' of
                   Some e \<Rightarrow> Inl e
                 | None \<Rightarrow> Inr (dev((fd, off) := Inr w'))) \<and>
         raplcap_is_zone_enabled socket rc zone (dev((fd, off) := Inr w')) =
           Some (Inr (if v \<noteq> 0 then 1 else 0)))) \<and>
   (raplcap_set_zone_enabled pw socket rc zone v dev = Some (Inr dev') \<longrightarrow>
      raplcap_is_zone_enabled socket rc zone dev' = Some (Inr (if v \<noteq> 0 then 1 else 0)))"
proof -
  have words: "\<exists>a b. set_pkg_platform_enabled x v = Some a \<and>
      (\<forall>n. bit a n = (if n \<in> {15, 16, 47, 48} then v \<noteq> 0 else bit x n)) \<and>
      set_core_uncore_dram_enabled x v = Some b \<and>
      (\<forall>n. bit b n = (if n \<in> {15, 16} then v \<noteq> 0 else bit x n))" for x
    using bit_set_pkg [of x v] bit_set_core [of x v] by blast
  have after: "\<exists>w'. (if class_A zone then set_pkg_platform_enabled x v
              else set_core_uncore_dram_enabled x v) = Some w' \<and>
         raplcap_set_zone_enabled pw socket rc zone v dev =
           Some (case pw dev (fd', off') w' of
                   Some e \<Rightarrow> Inl e
                 | None \<Rightarrow> Inr (dev((fd', off') := Inr w'))) \<and>
         raplcap_is_zone_enabled socket rc zone (dev((fd', off') := Inr w')) =
           Some (Inr (if v \<noteq> 0 then 1 else 0))"
    if reg: "zone_register rc socket zone = Some (st', fd', off')" "dev (fd', off') = Inr x"
    for st' fd' off' x
  proof -
    from words [of x] obtain a b where a: "set_pkg_platform_enabled x v = Some a"
      "\<And>n. bit a n = (if n \<in> {15, 16, 47, 48} then v \<noteq> 0 else bit x n)"
      and b: "set_core_uncore_dram_enabled x v = Some b"
      "\<And>n. bit b n = (if n \<in> {15, 16} then v \<noteq> 0 else bit x n)" by blast
    let ?new = "if class_A zone then a else b"
    let ?dev' = "dev((fd', off') := Inr ?new)"
    have new: "(if class_A zone then set_pkg_platform_enabled x v
              else set_core_uncore_dram_enabled x v) = Some ?new"
      using a(1) b(1) by simp
    have set: "raplcap_set_zone_enabled pw socket rc zone v dev =
        Some (case pw dev (fd', off') ?new of
                Some e \<Rightarrow> Inl e
              | None \<Rightarrow> Inr ?dev')"
      unfolding set_zone_enabled_ok [where dev = dev and v = v, OF reg] new by simp
    have "?dev' (fd', off') = Inr ?new" by simp
    from is_zone_enabled_ok [where dev = ?dev', OF reg(1) this]
    have "raplcap_is_zone_enabled socket rc zone ?dev' = Some (Inr (if v \<noteq> 0 then 1 else 0))"
      by (simp add: a(2) b(2))
    with new set show ?thesis by blast
  qed
  have session: "raplcap_is_zone_enabled socket rc zone dev =
        Some (Inr (if (if class_A zone then bit w 15 \<and> bit w 47 else bit w 15) then 1 else 0)) \<and>
      (\<exists>w'. (if class_A zone then set_pkg_platform_enabled w v
              else set_core_uncore_dram_enabled w v) = Some w' \<and>
         raplcap_set_zone_enabled pw socket rc zone v dev =
           Some (case pw dev (fd, off) w' of
                   Some e \<Rightarrow> Inl e
                 | None \<Rightarrow> Inr (dev((fd, off) := Inr w'))) \<and>
         raplcap_is_zone_enabled socket rc zone (dev((fd, off) := Inr w')) =
           Some (Inr (if v \<noteq> 0 then 1 else 0)))"
    if reg: "zone_register rc socket zone = Some (st, fd, off)" "dev (fd, off) = Inr w"
    using is_zone_enabled_ok [where dev = dev, OF reg] after [OF reg] by (rule conjI)
  have success: "raplcap_is_zone_enabled socket rc zone dev' = Some (Inr (if v \<noteq> 0 then 1 else 0))"
    if r: "raplcap_set_zone_enabled pw socket rc zone v dev = Some (Inr dev')"
  proof -
    from set_zone_enabled_Inr [OF r] obtain st' fd' off' x where
      reg: "zone_register rc socket zone = Some (st', fd', off')" "dev (fd', off') = Inr x"
      by blast
    from after [OF reg] obtain w' where
      w': "(if class_A zone then set_pkg_platform_enabled x v
            else set_core_uncore_dram_enabled x v) = Some w'"
          "raplcap_is_zone_enabled socket rc zone (dev((fd', off') := Inr w')) =
             Some (Inr (if v \<noteq> 0 then 1 else 0))" by blast
    from set_zone_enabled_Inr_dev [OF reg r] w'(1) have "dev' = dev((fd', off') := Inr w')"
      by simp
    with w'(2) show ?thesis by simp
  qed
  from words [of w] obtain a b where a: "set_pkg_platform_enabled w v = Some a"
      "\<And>n. bit a n = (if n \<in> {15, 16, 47, 48} then v \<noteq> 0 else bit w n)"
      and b: "set_core_uncore_dram_enabled w v = Some b"
      "\<And>n. bit b n = (if n \<in> {15, 16} then v \<noteq> 0 else bit w n)" by blast
  have pkg: "\<exists>w'. set_pkg_platform_enabled w v = Some w' \<and>
      bit w' 15 = (v \<noteq> 0) \<and> bit w' 47 = (v \<noteq> 0) \<and> bit w' 16 = (v \<noteq> 0) \<and> bit w' 48 = (v \<noteq> 0) \<and>
      is_pkg_platform_enabled w' = Some (if v \<noteq> 0 then 1 else 0)"
    by (simp add: is_pkg_eq a)
  have core: "\<exists>w'. set_core_uncore_dram_enabled w v = Some w' \<and>
      bit w' 15 = (v \<noteq> 0) \<and> bit w' 16 = (v \<noteq> 0) \<and>
      is_core_uncore_dram_enabled w' = Some (if v \<noteq> 0 then 1 else 0)"
    by (simp add: is_core_eq b)
  from is_pkg_eq [of w] is_core_eq [of w] pkg core session success
  show ?thesis by (intro conjI impI) (simp_all only:)
qed

lemma example_enable_package:
  "set_pkg_platform_enabled 0 1 = Some 0x1800000018000"
  by (simp add: set_pkg_platform_enabled_def replace_bits_def shl_u64_def)

theorem zone_enabled_bits_witness:
  "zone_register example_session 0 RAPLCAP_ZONE_PACKAGE = Some (example_state, 3, 0x610) \<and>
   example_dev (3, 0x610) = Inr 0 \<and>
   raplcap_is_zone_enabled 0 example_session RAPLCAP_ZONE_PACKAGE example_dev = Some (Inr 0) \<and>
   raplcap_set_zone_enabled example_pwrite 0 example_session RAPLCAP_ZONE_PACKAGE 1 example_dev =
     Some (Inr (example_dev((3, 0x610) := Inr 0x1800000018000))) \<and>
   raplcap_is_zone_enabled 0 example_session RAPLCAP_ZONE_PACKAGE
     (example_dev((3, 0x610) := Inr 0x1800000018000)) = Some (Inr 1) \<and>
   raplcap_set_zone_enabled full_pwrite 0 example_session RAPLCAP_ZONE_PACKAGE 1 example_dev =
     Some (Inl (EOTHER 28))"
proof -
  have h: "zone_register example_session 0 RAPLCAP_ZONE_PACKAGE = Some (example_state, 3, 0x610) \<and>
    example_dev (3, 0x610) = Inr 0"
    by (simp add: example_register example_dev_def)
  have ok: "raplcap_is_zone_enabled 0 example_session RAPLCAP_ZONE_PACKAGE example_dev = Some (Inr 0) \<and>
   raplcap_set_zone_enabled example_pwrite 0 example_session RAPLCAP_ZONE_PACKAGE 1 example_dev =
     Some (Inr (example_dev((3, 0x610) := Inr 0x1800000018000))) \<and>
   raplcap_is_zone_enabled 0 example_session RAPLCAP_ZONE_PACKAGE
     (example_dev((3, 0x610) := Inr 0x1800000018000)) = Some (Inr 1)"
    using h zone_enabled_bits [where w = 0 and v = 1 and rc = example_session and socket = 0
        and zone = RAPLCAP_ZONE_PACKAGE and st = example_state and fd = 3 and off = "0x610"
        and dev = example_dev and pw = example_pwrite and dev' = example_dev]
    by (simp add: class_A_def example_enable_package example_pwrite_def)
  have full: "raplcap_set_zone_enabled full_pwrite 0 example_session RAPLCAP_ZONE_PACKAGE 1 example_dev =
     Some (Inl (EOTHER 28))"
    using h zone_enabled_bits [where w = 0 and v = 1 and rc = example_session and socket = 0
        and zone = RAPLCAP_ZONE_PACKAGE and st = example_state and fd = 3 and off = "0x610"
        and dev = example_dev and pw = full_pwrite and dev' = example_dev]
    by (simp add: class_A_def example_enable_package full_pwrite_def)
  from h ok full show ?thesis by simp
qed

theorem set_zone_enabled_frame_witness:
  "raplcap_set_zone_enabled example_pwrite 0 example_session RAPLCAP_ZONE_CORE 1 example_dev =
     Some (Inr (example_dev((3, 0x638) := Inr 0x18000))) \<and>
   (\<exists>st fd off old new.
      zone_register example_session 0 RAPLCAP_ZONE_CORE = Some (st, fd, off) \<and>
      example_dev (fd, off) = Inr old \<and>
      example_dev((3, 0x638) := Inr 0x18000) = example_dev((fd, off) := Inr new) \<and>
      (\<forall>n. n \<notin> {15, 16} \<longrightarrow> bit new n = bit old n))"
proof -
  have "example_dev (3, 0x638) = Inr 0" by (simp add: example_dev_def)
  from set_zone_enabled_ok [where dev = example_dev and v = 1 and pw = example_pwrite,
      OF example_register(2) this]
  have h: "raplcap_set_zone_enabled example_pwrite 0 example_session RAPLCAP_ZONE_CORE 1 example_dev =
     Some (Inr (example_dev((3, 0x638) := Inr 0x18000)))"
    by (simp add: class_A_def set_core_uncore_dram_enabled_def replace_bits_def shl_u64_def
          example_pwrite_def)
  show ?thesis
    using h set_zone_enabled_frame [where w = 0 and v = 1 and socket = 0 and rc = example_session
        and zone = RAPLCAP_ZONE_CORE and dev = example_dev and pw = example_pwrite
        and dev' = "example_dev((3, 0x638) := Inr 0x18000)"]
    by (simp add: class_A_def)
qed

theorem time_window_decode_witness:
  "bits_of 0x860000 17 21 = 3 \<and> bits_of 0x860000 22 23 = 2 \<and>
   map_option (map_option seconds \<circ> fst) (get_pkg_platform 0x860000 example_state True False) =
     Some (Some (3 / 256)) \<and>
   map_option (map_option seconds) (get_core_uncore_dram 0x860000 example_state True) =
     Some (Some (3 / 320))"
proof -
  have h: "bits_of 0x860000 17 21 = 3 \<and> bits_of 0x860000 22 23 = 2"
    by (simp add: bits_of_def)
  show ?thesis
    using h time_window_decode [of "0x860000" example_state]
    by (simp add: example_state_def)
qed

section \<open>Writing limits and reading them back\<close>

lemma double_to_u64_nonneg:
  "0 \<le> x \<Longrightarrow> x < 2 ^ 64 \<Longrightarrow> double_to_u64 conv (Some x) = word_of_int \<lfloor>x\<rfloor>"
  by (simp add: double_to_u64_def)

lemma floor_log2:
  assumes "2 ^ k \<le> x" and "x < 2 ^ (k + 1)"
  shows "\<lfloor>log 2 x\<rfloor> = int k"
proof -
  have pos: "0 < x" using assms(1) by (smt (verit) zero_less_power)
  have "(2::real) powr real_of_int (int k) = 2 ^ k"
    by (simp add: powr_realpow)
  moreover have "(2::real) powr real_of_int (int k + 1) = 2 ^ (k + 1)"
    using powr_realpow [of "2::real" "k + 1"] by (simp add: add.commute)
  ultimately show ?thesis
    using assms floor_log_eq_powr_iff [of x 2 "int k"] pos by simp
qed

lemma log2_bounds:
  assumes "2 ^ k \<le> x" and "x < 2 ^ (k + 1)"
  shows "0 \<le> log 2 x" and "log 2 x < real k + 1"
proof -
  have f: "\<lfloor>log 2 x\<rfloor> = int k" by (rule floor_log2 [OF assms])
  show "0 \<le> log 2 x" using f by (smt (verit) of_nat_0_le_iff zero_le_floor)
  show "log 2 x < real k + 1" using f by linarith
qed

lemma log2_brackets_exact: "log2_brackets (log 2)"
proof -
  have "real k \<le> log 2 x \<and> log 2 x \<le> real k + 1"
    if "2 ^ k \<le> x" "x \<le> 2 ^ (k + 1)" for k :: nat and x :: real
  proof -
    have pos: "0 < x" using that(1) by (smt (verit) zero_less_power)
    have p: "(2::real) powr real n = 2 ^ n" for n by (simp add: powr_realpow)
    have "real k \<le> log 2 x" using that(1) pos by (simp add: le_log_iff p)
    moreover have "log 2 x \<le> real (k + 1)"
      using that(2) pos log_le_iff [of 2 x "real (k + 1)"] by (simp only: p)
    ultimately show ?thesis by simp
  qed
  then show ?thesis by (simp add: log2_brackets_def)
qed

lemma encode_log2:
  assumes "0 < d" and "2 ^ k * d \<le> n" and "n < 2 ^ (k + 1) * d" and "k < 64"
  shows "double_to_u64 conv (log2_double example_log2 (div_double n d)) = word_of_nat k"
proof -
  have q: "2 ^ k \<le> n / d" "n / d < 2 ^ (k + 1)"
    using assms by (simp_all add: pos_le_divide_eq pos_divide_less_eq)
  have pos: "0 < n / d" using q(1) by (smt (verit) zero_less_power)
  have "real k + 1 \<le> 2 ^ 64"
  proof -
    have "real k + 1 \<le> 64" using assms(4) by simp
    then show ?thesis by simp
  qed
  with log2_bounds [OF q] have "0 \<le> log 2 (n / d)" "log 2 (n / d) < 2 ^ 64" by simp_all
  then have "double_to_u64 conv (Some (log 2 (n / d))) = word_of_int \<lfloor>log 2 (n / d)\<rfloor>"
    by (rule double_to_u64_nonneg)
  then show ?thesis
    using assms(1) pos
    by (simp add: log2_double_def div_double_def example_log2_def floor_log2 [OF q])
qed

lemma encode_log2_brackets:
  assumes "log2_brackets lg" and "0 < d" and "2 ^ k * d \<le> n" and "n < 2 ^ (k + 1) * d"
    and "k < 63"
  shows "\<exists>y. (y = k \<or> y = k + 1) \<and>
           double_to_u64 conv (log2_double lg (div_double n d)) = word_of_nat y"
proof -
  have q: "2 ^ k \<le> n / d" "n / d \<le> 2 ^ (k + 1)"
    using assms(2-4) by (simp_all add: pos_le_divide_eq pos_divide_le_eq)
  have pos: "0 < n / d" using q(1) by (smt (verit) zero_less_power)
  from assms(1) q have b: "real k \<le> lg (n / d)" "lg (n / d) \<le> real k + 1"
    unfolding log2_brackets_def by blast+
  define y where "y = nat \<lfloor>lg (n / d)\<rfloor>"
  have f0: "0 \<le> \<lfloor>lg (n / d)\<rfloor>" using b(1) by (simp add: le_floor_iff)
  have fy: "\<lfloor>lg (n / d)\<rfloor> = int y" using f0 by (simp add: y_def)
  have "int k \<le> \<lfloor>lg (n / d)\<rfloor>" using b(1) by (simp add: le_floor_iff)
  moreover have "\<lfloor>lg (n / d)\<rfloor> \<le> int k + 1" using b(2) by (simp add: floor_le_iff)
  ultimately have yk: "y = k \<or> y = k + 1" using fy by linarith
  have "real k + 1 < 2 ^ 64"
  proof -
    have "real k + 1 < 64" using assms(5) by simp
    then show ?thesis by simp
  qed
  with b have "0 \<le> lg (n / d)" "lg (n / d) < 2 ^ 64" by simp_all
  then have "double_to_u64 conv (Some (lg (n / d))) = word_of_int \<lfloor>lg (n / d)\<rfloor>"
    by (rule double_to_u64_nonneg)
  then have "double_to_u64 conv (log2_double lg (div_double n d)) = word_of_nat y"
    using assms(2) pos by (simp add: log2_double_def div_double_def fy)
  with yk show ?thesis by blast
qed

lemma encode_power:
  assumes "0 < pu" and "0 \<le> p" and "p < 2 ^ 64 * pu"
  shows "double_to_u64 conv (div_double p pu) = word_of_int \<lfloor>p / pu\<rfloor>"
proof -
  have "0 \<le> p / pu" "p / pu < 2 ^ 64"
    using assms by (simp_all add: pos_divide_less_eq)
  then show ?thesis using assms(1) by (simp add: div_double_def double_to_u64_nonneg)
qed

lemma exponent_exists:
  fixes q :: real
  assumes "1 \<le> q" and "q < 2 ^ 31"
  shows "\<exists>k<31. 2 ^ k \<le> q \<and> q < 2 ^ (k + 1)"
proof -
  define j where "j = \<lfloor>log 2 q\<rfloor>"
  have pos: "0 < q" using assms(1) by simp
  have b: "2 powr real_of_int j \<le> q" "q < 2 powr real_of_int (j + 1)"
    using floor_log_eq_powr_iff [of q 2 j] pos by (simp_all add: j_def)
  have "0 \<le> log 2 q" using assms(1) by simp
  then have j0: "0 \<le> j" by (simp add: j_def)
  define k where "k = nat j"
  have jk: "j = int k" using j0 by (simp add: k_def)
  have p1: "(2::real) powr real_of_int j = 2 ^ k"
    by (simp add: jk powr_realpow)
  have p2: "(2::real) powr real_of_int (j + 1) = 2 ^ (k + 1)"
    using powr_realpow [of "2::real" "k + 1"] by (simp add: jk add.commute)
  have "(2::real) ^ k < 2 ^ 31" using b(1) assms(2) p1 by simp
  then have "k < 31" by (rule power_less_imp_less_exp [rotated]) simp
  with b p1 p2 show ?thesis by auto
qed

lemma power_field_le:
  assumes "0 < pu" and "0 < p" and "p < 2 ^ 15 * pu"
  shows "\<exists>r < 2 ^ 15. double_to_u64 conv (div_double p pu) = word_of_nat r \<and>
           pu * real r \<le> p \<and> p < pu * real r + pu"
proof -
  define r where "r = nat \<lfloor>p / pu\<rfloor>"
  have q: "0 \<le> p / pu" "p / pu < 2 ^ 15" using assms by (simp_all add: pos_divide_less_eq)
  have fl: "\<lfloor>p / pu\<rfloor> = int r" using q(1) by (simp add: r_def)
  have "\<lfloor>p / pu\<rfloor> < 2 ^ 15" using q(2) by (simp add: floor_less_iff)
  then have r15: "r < 2 ^ 15" using fl by simp
  have "p < 2 ^ 64 * pu"
  proof -
    have "(2::real) ^ 15 * pu \<le> 2 ^ 64 * pu" using assms(1) by simp
    with assms(3) show ?thesis by linarith
  qed
  from encode_power [OF assms(1) _ this, of conv] assms(2)
  have e: "double_to_u64 conv (div_double p pu) = word_of_nat r" by (simp add: fl)
  have "real r \<le> p / pu" "p / pu < real r + 1"
    using fl by linarith+
  then have "pu * real r \<le> p" "p < pu * real r + pu"
    using assms(1) by (simp_all add: pos_le_divide_eq pos_divide_less_eq algebra_simps)
  with r15 e show ?thesis by blast
qed

lemma unat_word_of_nat_small: "r < 2 ^ 15 \<Longrightarrow> unat (word_of_nat r :: 64 word) mod 32768 = r"
proof -
  assume a: "r < 2 ^ 15"
  then have "r < 2 ^ 64" by simp
  then have "unat (word_of_nat r :: 64 word) = r" by (simp add: unat_of_nat)
  with a show ?thesis by simp
qed

lemma unat_word_of_nat_exp: "k < 32 \<Longrightarrow> unat (word_of_nat k :: 64 word) mod 32 = k"
proof -
  assume a: "k < 32"
  then have "k < 2 ^ 64" by simp
  then have "unat (word_of_nat k :: 64 word) = k" by (simp add: unat_of_nat)
  with a show ?thesis by simp
qed

text \<open>The power read back from a limit of class A, whatever the time window written with
  it.\<close>

lemma watts_A:
  fixes conv :: "real option \<Rightarrow> 64 word" and lg :: "real \<Rightarrow> real" and st :: raplcap_msr
    and w :: "64 word" and W T :: real and off :: nat
  assumes off: "off + 23 < 64"
    and units: "0 < power_units st"
    and W: "0 < W" "W < 2 ^ 15 * power_units st"
  defines "m \<equiv> put_limit_A conv lg st off (Some \<lparr>seconds = T, watts = W\<rparr>) w"
  shows "watts (decode_A st m off) \<le> W \<and> W < watts (decode_A st m off) + power_units st"
proof -
  from power_field_le [OF units W, of conv] obtain r where
    r: "r < 2 ^ 15" "pwr_raw conv st W = word_of_nat r"
       "power_units st * real r \<le> W" "W < power_units st * real r + power_units st"
    unfolding pwr_raw_def by blast
  have "bits_of m off (off + 14) = r"
    using off W(1)
    by (simp add: m_def put_limit_A_def Let_def r(2) bits_of_put_other bits_of_put_same
          unat_word_of_nat_small [OF r(1)])
  with r(3,4) show ?thesis by (simp add: decode_A_def)
qed

text \<open>The time window read back from a limit of class A, for a library whose \<^verbatim>\<open>log2\<close>
  lies between the exponents of the neighbouring powers of two: the exponent stored is
  the one of the largest representable window not above \<open>T\<close>, or the next one.\<close>

lemma seconds_A:
  fixes conv :: "real option \<Rightarrow> 64 word" and lg :: "real \<Rightarrow> real" and st :: raplcap_msr
    and w :: "64 word" and W T :: real and off :: nat
  assumes off: "off + 23 < 64"
    and units: "0 < time_units st"
    and lg: "log2_brackets lg"
    and T: "time_units st * (1 + real (bits_of w (off + 22) (off + 23)) / 4) \<le> T"
           "T < 2 ^ 31 * (time_units st * (1 + real (bits_of w (off + 22) (off + 23)) / 4))"
  defines "m \<equiv> put_limit_A conv lg st off (Some \<lparr>seconds = T, watts = W\<rparr>) w"
  shows "seconds (decode_A st m off) \<le> 2 * T \<and> T < 2 * seconds (decode_A st m off)"
proof -
  let ?z = "bits_of w (off + 22) (off + 23)"
  let ?d = "time_units st * (real ?z + 4)"
  have d: "0 < ?d" using units by simp
  have Tpos: "0 < T"
  proof -
    have "0 < time_units st * (1 + real ?z / 4)" using units by (simp add: add_pos_nonneg)
    with T(1) show ?thesis by linarith
  qed
  have "1 \<le> 4 * T / ?d" "4 * T / ?d < 2 ^ 31"
    using T d by (simp_all add: pos_le_divide_eq pos_divide_less_eq algebra_simps)
  from exponent_exists [OF this] obtain k where
    k: "k < 31" "2 ^ k \<le> 4 * T / ?d" "4 * T / ?d < 2 ^ (k + 1)" by blast
  have kb: "2 ^ k * ?d \<le> 4 * T" "4 * T < 2 ^ (k + 1) * ?d"
    using k(2,3) d by (simp_all add: pos_le_divide_eq pos_divide_less_eq)
  from k(1) have "k < 63" by simp
  from encode_log2_brackets [OF lg d kb this, of conv] obtain y where
    y: "y = k \<or> y = k + 1" "time_raw_A conv lg st ?z T = word_of_nat y"
    unfolding time_raw_A_def by auto
  from y(1) k(1) have y32: "y < 32" by auto
  define m1 where "m1 = (if 0 < W then put_field w (pwr_raw conv st W) off (off + 14) else w)"
  have m: "m = put_field m1 (word_of_nat y) (off + 17) (off + 21)"
    using Tpos by (simp add: m_def m1_def put_limit_A_def Let_def y(2))
  have f2: "bits_of m (off + 17) (off + 21) = y"
    using off by (simp add: m bits_of_put_same unat_word_of_nat_exp [OF y32])
  have "bits_of m1 (off + 22) (off + 23) = ?z"
    using off by (simp add: m1_def bits_of_put_other)
  then have f3: "bits_of m (off + 22) (off + 23) = ?z"
    using off by (simp add: m bits_of_put_other)
  have s: "seconds (decode_A st m off) = 2 ^ y * ?d / 4"
    by (simp add: decode_A_def f2 f3 algebra_simps)
  define P where "P = 2 ^ k * ?d"
  define Q where "Q = 2 ^ y * ?d"
  have P: "P \<le> 4 * T" "4 * T < 2 * P" using kb by (simp_all add: P_def)
  from y(1) have "Q = P \<or> Q = 2 * P" by (auto simp: P_def Q_def)
  then have "Q / 4 \<le> 2 * T \<and> T < 2 * (Q / 4)" using P by auto
  then show ?thesis by (simp only: s Q_def)
qed

lemma watts_B:
  fixes conv :: "real option \<Rightarrow> 64 word" and lg :: "real \<Rightarrow> real" and st :: raplcap_msr
    and w :: "64 word" and W T :: real
  assumes units: "0 < power_units st"
    and W: "0 < W" "W < 2 ^ 15 * power_units st"
  defines "m \<equiv> put_limit_B conv lg st (Some \<lparr>seconds = T, watts = W\<rparr>) w"
  shows "watts (decode_B st m) \<le> W \<and> W < watts (decode_B st m) + power_units st"
proof -
  from power_field_le [OF units(1) W, of conv] obtain r where
    r: "r < 2 ^ 15" "pwr_raw conv st W = word_of_nat r"
       "power_units st * real r \<le> W" "W < power_units st * real r + power_units st"
    unfolding pwr_raw_def by blast
  have "bits_of m 0 14 = r"
    using W(1)
    by (simp add: m_def put_limit_B_def Let_def r(2) bits_of_put_other bits_of_put_same
          unat_word_of_nat_small [OF r(1)])
  with r(3,4) show ?thesis by (simp add: decode_B_def)
qed

lemma decode_long_after_short:
  "decode_A st (put_limit_A conv lg st 32 ls m) 0 = decode_A st m 0"
proof -
  have "bits_of (put_limit_A conv lg st 32 ls m) 0 14 = bits_of m 0 14"
    by (rule put_limit_A_keeps) simp_all
  moreover have "bits_of (put_limit_A conv lg st 32 ls m) 17 21 = bits_of m 17 21"
    by (rule put_limit_A_keeps) simp_all
  moreover have "bits_of (put_limit_A conv lg st 32 ls m) 22 23 = bits_of m 22 23"
    by (rule put_limit_A_keeps) simp_all
  ultimately show ?thesis by (simp add: decode_A_def)
qed

lemma fraction_short_after_long:
  "bits_of (put_limit_A conv lg st 0 ll w) 54 55 = bits_of w 54 55"
  by (rule put_limit_A_keeps) simp_all

text \<open>
  Claim C2, as amended. The claim promises, for every strictly positive \<open>W\<close> and \<open>T\<close> and
  both classes, that the limits read after writing them are within one power unit of
  \<open>W\<close> and within the resolution of the time encoding of \<open>T\<close>. What the code does by
  design, on a register of a valid session that keeps what is written to it:
  \<^verbatim>\<open>raplcap_set_limits\<close> returns with the outcome of its write, and after a successful one
  \<^verbatim>\<open>raplcap_get_limits\<close> succeeds. The power is stored in a field of 15 bits, so that for
  \<open>W\<close> below \<open>2 ^ 15\<close> power units the power read back is the largest multiple of the power
  unit not above \<open>W\<close>, for both classes and whatever the window \<open>T\<close>. The exponent of the
  time window is stored in 5 bits next to the fraction bits \<open>Z\<close> that the register already
  holds: for class A (long-term and short-term limit) and a window \<open>T\<close> with
  \<open>(1 + Z / 4) * time_unit \<le> T < 2 ^ 31 * (1 + Z / 4) * time_unit\<close>, the window read back
  is within one step of the exponent of \<open>T\<close>: at most twice \<open>T\<close> and more than half of \<open>T\<close>.
  This needs a \<^verbatim>\<open>log2\<close> whose result lies between the exponents of the neighbouring powers
  of two; a rounded result may lie above the logarithm, so that the window read back may
  be the next one above \<open>T\<close>. The units are powers of 1/2, as \<^verbatim>\<open>raplcap_init\<close> computes
  them.
\<close>

theorem limits_round_trip:
  assumes reg: "zone_register rc socket zone = Some (st, fd, off)" "dev (fd, off) = Inr w"
    and units: "power_units st = 1 / 2 ^ pe" "time_units st = 1 / 2 ^ te"
    and W: "0 < W" "W < 2 ^ 15 * power_units st" and T: "0 < T"
  shows
   "(\<exists>m. raplcap_set_limits conv lg pw socket rc zone (Some \<lparr>seconds = T, watts = W\<rparr>) ls dev =
           Some (case pw dev (fd, off) m of
                   Some e \<Rightarrow> Inl e
                 | None \<Rightarrow> Inr (dev((fd, off) := Inr m)))) \<and>
    (raplcap_set_limits conv lg pw socket rc zone (Some \<lparr>seconds = T, watts = W\<rparr>) ls dev =
       Some (Inr dev') \<longrightarrow>
     (\<exists>l s.
        raplcap_get_limits socket rc zone True b dev' = Some (Inr (Some l, s)) \<and>
        watts l \<le> W \<and> W < watts l + power_units st \<and>
        (class_A zone \<and> log2_brackets lg \<and>
         time_units st * (1 + real (bits_of w 22 23) / 4) \<le> T \<and>
         T < 2 ^ 31 * (time_units st * (1 + real (bits_of w 22 23) / 4)) \<longrightarrow>
           seconds l \<le> 2 * T \<and> T < 2 * seconds l))) \<and>
    (class_A zone \<and>
     raplcap_set_limits conv lg pw socket rc zone ll (Some \<lparr>seconds = T, watts = W\<rparr>) dev =
       Some (Inr dev') \<longrightarrow>
     (\<exists>l s.
        raplcap_get_limits socket rc zone a True dev' = Some (Inr (s, Some l)) \<and>
        watts l \<le> W \<and> W < watts l + power_units st \<and>
        (log2_brackets lg \<and>
         time_units st * (1 + real (bits_of w 54 55) / 4) \<le> T \<and>
         T < 2 ^ 31 * (time_units st * (1 + real (bits_of w 54 55) / 4)) \<longrightarrow>
           seconds l \<le> 2 * T \<and> T < 2 * seconds l)))"
proof -
  have pu: "0 < power_units st" and tu: "0 < time_units st"
    by (simp_all add: units)
  show ?thesis
  proof (intro conjI impI)
  let ?lim = "Some \<lparr>seconds = T, watts = W\<rparr>"
  show "\<exists>m. raplcap_set_limits conv lg pw socket rc zone ?lim ls dev =
           Some (case pw dev (fd, off) m of
                   Some e \<Rightarrow> Inl e
                 | None \<Rightarrow> Inr (dev((fd, off) := Inr m)))"
    unfolding set_limits_ok [where dev = dev, OF reg] by (rule exI) (rule refl)
next
  let ?lim = "Some \<lparr>seconds = T, watts = W\<rparr>"
  assume r: "raplcap_set_limits conv lg pw socket rc zone ?lim ls dev = Some (Inr dev')"
  show "\<exists>l s.
        raplcap_get_limits socket rc zone True b dev' = Some (Inr (Some l, s)) \<and>
        watts l \<le> W \<and> W < watts l + power_units st \<and>
        (class_A zone \<and> log2_brackets lg \<and>
         time_units st * (1 + real (bits_of w 22 23) / 4) \<le> T \<and>
         T < 2 ^ 31 * (time_units st * (1 + real (bits_of w 22 23) / 4)) \<longrightarrow>
           seconds l \<le> 2 * T \<and> T < 2 * seconds l)"
  proof (cases "class_A zone")
    case True
    let ?m1 = "put_limit_A conv lg st 0 ?lim w"
    let ?m = "put_limit_A conv lg st 32 ls ?m1"
    from set_limits_Inr_dev [where dev = dev, OF reg r] True
    have d: "dev' = dev((fd, off) := Inr ?m)" by simp
    then have "dev' (fd, off) = Inr ?m" by simp
    from get_limits_ok [where dev = dev', OF reg(1) this]
    have get: "raplcap_get_limits socket rc zone True b dev' =
        Some (Inr (Some (decode_A st ?m1 0), if b then Some (decode_A st ?m 32) else None))"
      using True by (simp add: get_pkg_platform_eq decode_long_after_short)
    from watts_A [where off = 0 and conv = conv and lg = lg and w = w and T = T,
        OF _ pu W]
    have wt: "watts (decode_A st ?m1 0) \<le> W \<and> W < watts (decode_A st ?m1 0) + power_units st"
      by simp
    have "seconds (decode_A st ?m1 0) \<le> 2 * T \<and> T < 2 * seconds (decode_A st ?m1 0)"
      if "log2_brackets lg"
        "time_units st * (1 + real (bits_of w 22 23) / 4) \<le> T"
        "T < 2 ^ 31 * (time_units st * (1 + real (bits_of w 22 23) / 4))"
      using seconds_A [where off = 0 and conv = conv and lg = lg and w = w and T = T and W = W,
          OF _ tu that(1)] that(2,3) by simp
    with get wt show ?thesis by blast
  next
    case False
    let ?m = "put_limit_B conv lg st ?lim w"
    from set_limits_Inr_dev [where dev = dev, OF reg r] False
    have d: "dev' = dev((fd, off) := Inr ?m)" by simp
    then have "dev' (fd, off) = Inr ?m" by simp
    from get_limits_ok [where dev = dev', OF reg(1) this]
    have get: "raplcap_get_limits socket rc zone True b dev' =
        Some (Inr (Some (decode_B st ?m), None))"
      using False by (simp add: get_core_uncore_dram_eq)
    from watts_B [where conv = conv and lg = lg and w = w and T = T, OF pu W]
    have "watts (decode_B st ?m) \<le> W \<and> W < watts (decode_B st ?m) + power_units st" .
    with get False show ?thesis by blast
  qed
next
  let ?lim = "Some \<lparr>seconds = T, watts = W\<rparr>"
  assume h: "class_A zone \<and>
     raplcap_set_limits conv lg pw socket rc zone ll ?lim dev = Some (Inr dev')"
  let ?m1 = "put_limit_A conv lg st 0 ll w"
  let ?m = "put_limit_A conv lg st 32 ?lim ?m1"
  from h have r: "raplcap_set_limits conv lg pw socket rc zone ll ?lim dev = Some (Inr dev')"
    by simp
  from h set_limits_Inr_dev [where dev = dev, OF reg r]
  have d: "dev' = dev((fd, off) := Inr ?m)" by simp
  then have "dev' (fd, off) = Inr ?m" by simp
  from get_limits_ok [where dev = dev', OF reg(1) this]
  have get: "raplcap_get_limits socket rc zone a True dev' =
      Some (Inr (if a then Some (decode_A st ?m 0) else None, Some (decode_A st ?m 32)))"
    using h by (simp add: get_pkg_platform_eq)
  from watts_A [where off = 32 and conv = conv and lg = lg and w = ?m1 and T = T,
      OF _ pu W]
  have wt: "watts (decode_A st ?m 32) \<le> W \<and> W < watts (decode_A st ?m 32) + power_units st"
    by simp
  have "seconds (decode_A st ?m 32) \<le> 2 * T \<and> T < 2 * seconds (decode_A st ?m 32)"
    if "log2_brackets lg"
      "time_units st * (1 + real (bits_of w 54 55) / 4) \<le> T"
      "T < 2 ^ 31 * (time_units st * (1 + real (bits_of w 54 55) / 4))"
    using seconds_A [where off = 32 and conv = conv and lg = lg and w = ?m1 and T = T and W = W,
        OF _ tu that(1)] that(2,3) by (simp add: fraction_short_after_long)
  with get wt show "\<exists>l s.
        raplcap_get_limits socket rc zone a True dev' = Some (Inr (s, Some l)) \<and>
        watts l \<le> W \<and> W < watts l + power_units st \<and>
        (log2_brackets lg \<and>
         time_units st * (1 + real (bits_of w 54 55) / 4) \<le> T \<and>
         T < 2 ^ 31 * (time_units st * (1 + real (bits_of w 54 55) / 4)) \<longrightarrow>
           seconds l \<le> 2 * T \<and> T < 2 * seconds l)"
    by blast
qed
qed

lemma example_dev_0: "example_dev (fd, off) = Inr 0"
  by (simp add: example_dev_def)

lemma example_units:
  "power_units example_state = 1 / 8" "time_units example_state = 1 / 1024"
  by (simp_all add: example_state_def)

lemma example_log2_1024:
  "double_to_u64 conv (log2_double example_log2 (div_double 4 (1 / 256))) = 10"
  using encode_log2 [of "1 / 256" 10 4 conv] by simp

lemma example_log2_1:
  "double_to_u64 conv (log2_double example_log2 (div_double 1 1)) = 0"
  using encode_log2 [of 1 0 1 conv] by simp

lemma example_log2_big:
  "double_to_u64 conv (log2_double example_log2 (div_double 16777216 (1 / 256))) = 32"
  using encode_log2 [of "1 / 256" 32 16777216 conv] by simp

lemma example_log2_small:
  "double_to_u64 example_conv (log2_double example_log2 (div_double (1 / 1024) (1 / 256))) = - 2"
proof -
  have "log 2 (1 / 4) = - log 2 (2 ^ 2)"
    by (simp add: log_divide)
  also have "\<dots> = - 2" by (simp only: log_nat_power) simp
  finally show ?thesis
    by (simp add: log2_double_def div_double_def example_log2_def double_to_u64_def
          example_conv_def)
qed

lemma example_power_4096: "double_to_u64 conv (div_double 4096 (1 / 8)) = 32768"
  using encode_power [of "1 / 8" 4096 conv] by simp

lemma example_power_1: "double_to_u64 conv (div_double 1 (1 / 8)) = 8"
  using encode_power [of "1 / 8" 1 conv] by simp

lemma example_power_100: "double_to_u64 conv (div_double 100 (1 / 8)) = 800"
  using encode_power [of "1 / 8" 100 conv] by simp

lemma example_set_package:
  "raplcap_set_limits example_conv example_log2 example_pwrite 0 example_session
     RAPLCAP_ZONE_PACKAGE (Some \<lparr>seconds = 1, watts = 4096\<rparr>) None example_dev =
     Some (Inr (example_dev((3, 0x610) := Inr 0x140000)))"
  using set_limits_ok [where dev = example_dev and conv = example_conv and lg = example_log2
      and pw = example_pwrite and ll = "Some \<lparr>seconds = 1, watts = 4096\<rparr>" and ls = None,
      OF example_register(1) example_dev_0]
  by (simp add: class_A_def put_limit_A_def pwr_raw_def time_raw_A_def example_units
        example_power_4096 example_pwrite_def bits_of_def put_field_def example_log2_1024
        mask_eq_exp_minus_1 push_bit_eq_mult)

lemma example_get_package:
  "raplcap_get_limits 0 example_session RAPLCAP_ZONE_PACKAGE True False
     (example_dev((3, 0x610) := Inr 0x140000)) =
     Some (Inr (Some \<lparr>seconds = 1, watts = 0\<rparr>, None))"
proof -
  have "(example_dev((3, 0x610) := Inr 0x140000)) (3, 0x610) = Inr 0x140000" by simp
  from get_limits_ok [where dev = "example_dev((3, 0x610) := Inr 0x140000)"
      and a = True and b = False, OF example_register(1) this]
  show ?thesis
    by (simp add: class_A_def get_pkg_platform_eq decode_A_def bits_of_def example_units)
qed

lemma example_set_core:
  "raplcap_set_limits example_conv example_log2 example_pwrite 0 example_session
     RAPLCAP_ZONE_CORE (Some \<lparr>seconds = 1, watts = 1\<rparr>) None example_dev =
     Some (Inr (example_dev((3, 0x638) := Inr 8)))"
  using set_limits_ok [where dev = example_dev and conv = example_conv and lg = example_log2
      and pw = example_pwrite and ll = "Some \<lparr>seconds = 1, watts = 1\<rparr>" and ls = None,
      OF example_register(2) example_dev_0]
  by (simp add: class_A_def put_limit_B_def pwr_raw_def time_raw_B_def example_units
        example_power_1 example_pwrite_def bits_of_def put_field_def example_log2_1
        mask_eq_exp_minus_1 push_bit_eq_mult)

lemma example_get_core:
  "raplcap_get_limits 0 example_session RAPLCAP_ZONE_CORE True False
     (example_dev((3, 0x638) := Inr 8)) =
     Some (Inr (Some \<lparr>seconds = 1 / 1024, watts = 1\<rparr>, None))"
proof -
  have "(example_dev((3, 0x638) := Inr 8)) (3, 0x638) = Inr 8" by simp
  from get_limits_ok [where dev = "example_dev((3, 0x638) := Inr 8)"
      and a = True and b = False, OF example_register(2) this]
  show ?thesis
    by (simp add: class_A_def get_core_uncore_dram_eq decode_B_def bits_of_def example_units)
qed

lemma example_set_long_window:
  "raplcap_set_limits example_conv example_log2 example_pwrite 0 example_session
     RAPLCAP_ZONE_PACKAGE (Some \<lparr>seconds = 4194304, watts = 1\<rparr>) None example_dev =
     Some (Inr (example_dev((3, 0x610) := Inr 8)))"
  using set_limits_ok [where dev = example_dev and conv = example_conv and lg = example_log2
      and pw = example_pwrite and ll = "Some \<lparr>seconds = 4194304, watts = 1\<rparr>" and ls = None,
      OF example_register(1) example_dev_0]
  by (simp add: class_A_def put_limit_A_def pwr_raw_def time_raw_A_def example_units
        example_power_1 example_pwrite_def bits_of_def put_field_def example_log2_big
        mask_eq_exp_minus_1 push_bit_eq_mult)

lemma example_set_short_window:
  "raplcap_set_limits example_conv example_log2 example_pwrite 0 example_session
     RAPLCAP_ZONE_PACKAGE (Some \<lparr>seconds = 1 / 4096, watts = 1\<rparr>) None example_dev =
     Some (Inr (example_dev((3, 0x610) := Inr 0x3C0008)))"
  using set_limits_ok [where dev = example_dev and conv = example_conv and lg = example_log2
      and pw = example_pwrite and ll = "Some \<lparr>seconds = 1 / 4096, watts = 1\<rparr>" and ls = None,
      OF example_register(1) example_dev_0]
  by (simp add: class_A_def put_limit_A_def pwr_raw_def time_raw_A_def example_units
        example_power_1 example_pwrite_def bits_of_def put_field_def example_log2_small
        mask_eq_exp_minus_1 push_bit_eq_mult)

lemma example_get_window:
  "raplcap_get_limits 0 example_session RAPLCAP_ZONE_PACKAGE True False
     (example_dev((3, 0x610) := Inr 8)) =
     Some (Inr (Some \<lparr>seconds = 1 / 1024, watts = 1\<rparr>, None))"
proof -
  have "(example_dev((3, 0x610) := Inr 8)) (3, 0x610) = Inr 8" by simp
  from get_limits_ok [where dev = "example_dev((3, 0x610) := Inr 8)"
      and a = True and b = False, OF example_register(1) this]
  show ?thesis
    by (simp add: class_A_def get_pkg_platform_eq decode_A_def bits_of_def example_units)
qed

lemma example_get_short_window:
  "raplcap_get_limits 0 example_session RAPLCAP_ZONE_PACKAGE True False
     (example_dev((3, 0x610) := Inr 0x3C0008)) =
     Some (Inr (Some \<lparr>seconds = 1048576, watts = 1\<rparr>, None))"
proof -
  have "(example_dev((3, 0x610) := Inr 0x3C0008)) (3, 0x610) = Inr 0x3C0008" by simp
  from get_limits_ok [where dev = "example_dev((3, 0x610) := Inr 0x3C0008)"
      and a = True and b = False, OF example_register(1) this]
  show ?thesis
    by (simp add: class_A_def get_pkg_platform_eq decode_A_def bits_of_def example_units)
qed

lemma example_set_100:
  "raplcap_set_limits example_conv example_log2 example_pwrite 0 example_session
     RAPLCAP_ZONE_PACKAGE (Some \<lparr>seconds = 1, watts = 100\<rparr>) None example_dev =
     Some (Inr (example_dev((3, 0x610) := Inr 0x140320)))"
  using set_limits_ok [where dev = example_dev and conv = example_conv and lg = example_log2
      and pw = example_pwrite and ll = "Some \<lparr>seconds = 1, watts = 100\<rparr>" and ls = None,
      OF example_register(1) example_dev_0]
  by (simp add: class_A_def put_limit_A_def pwr_raw_def time_raw_A_def example_units
        example_power_100 example_pwrite_def bits_of_def put_field_def example_log2_1024
        mask_eq_exp_minus_1 push_bit_eq_mult)

text \<open>
  The bound \<open>2 ^ 31\<close> of the amended claim cannot be raised for every library that it
  admits: with the logarithm rounded up to the next whole number, a window of 3000000 s,
  between \<open>2 ^ 31\<close> and \<open>2 ^ 32\<close> time units of 1/1024 s, gets the exponent 32, which
  the field of 5 bits stores as 0.
\<close>

lemma log2_brackets_rounded_up: "log2_brackets rounded_up_log2"
proof -
  have "real k \<le> rounded_up_log2 x \<and> rounded_up_log2 x \<le> real k + 1"
    if "2 ^ k \<le> x" "x \<le> 2 ^ (k + 1)" for k :: nat and x :: real
  proof -
    from log2_brackets_exact that have b: "real k \<le> log 2 x" "log 2 x \<le> real k + 1"
      unfolding log2_brackets_def by blast+
    have "log 2 x \<le> real_of_int \<lceil>log 2 x\<rceil>" by simp
    with b(1) have "real k \<le> real_of_int \<lceil>log 2 x\<rceil>" by linarith
    moreover have "\<lceil>log 2 x\<rceil> \<le> int k + 1" using b(2) by (simp add: ceiling_le_iff)
    then have "real_of_int \<lceil>log 2 x\<rceil> \<le> real k + 1" by linarith
    ultimately show ?thesis by (simp add: rounded_up_log2_def)
  qed
  then show ?thesis by (simp add: log2_brackets_def)
qed

lemma rounded_up_example:
  "double_to_u64 conv (log2_double rounded_up_log2 (div_double 12000000 (1 / 256))) = 32"
proof -
  have "31 < log 2 3072000000"
    by (subst less_log_iff) (simp_all add: powr_numeral)
  moreover have "log 2 3072000000 \<le> 32"
    by (subst log_le_iff) (simp_all add: powr_numeral)
  ultimately have "\<lceil>log 2 3072000000\<rceil> = 32" by (intro ceiling_unique) simp_all
  then show ?thesis
    by (simp add: log2_double_def div_double_def rounded_up_log2_def double_to_u64_def)
qed

lemma example_set_rounded_up:
  "raplcap_set_limits example_conv rounded_up_log2 example_pwrite 0 example_session
     RAPLCAP_ZONE_PACKAGE (Some \<lparr>seconds = 3000000, watts = 1\<rparr>) None example_dev =
     Some (Inr (example_dev((3, 0x610) := Inr 8)))"
  using set_limits_ok [where dev = example_dev and conv = example_conv and lg = rounded_up_log2
      and pw = example_pwrite and ll = "Some \<lparr>seconds = 3000000, watts = 1\<rparr>" and ls = None,
      OF example_register(1) example_dev_0]
  by (simp add: class_A_def put_limit_A_def pwr_raw_def time_raw_A_def example_units
        example_power_1 example_pwrite_def bits_of_def put_field_def rounded_up_example
        mask_eq_exp_minus_1 push_bit_eq_mult)

text \<open>
  Claim C2 fails as stated. The examples have a power unit of 1/8 W and a time unit of
  1/1024 s, and registers that hold 0.

  \<^item> Writing 4096 W and 1 s to the package zone stores 32768 in a field of 15 bits, and
    the limit read back is 0 W.
  \<^item> Writing 1 W and 1 s to the core zone (class B) computes the exponent from
    \<open>log2 (seconds / F Z)\<close> without the time unit, and the window read back is 1/1024 s.
  \<^item> Writing a window of 4194304 s, which is \<open>2 ^ 32\<close> time units, to the package zone
    stores the exponent 32 in a field of 5 bits, and the window read back is 1/1024 s.
  \<^item> Writing a window of 1/4096 s, a quarter of the time unit, to the package zone asks
    for the exponent \<open>- 2\<close>, which no unsigned field holds. The conversion is undefined in
    C; whatever it yields, the exponent stored is at least 0, so that the window read back
    is at least the time unit, four times the window written. With the conversion of
    x86-64 the exponent stored is 30, and the window read back is 1048576 s.
\<close>

theorem limits_round_trip_counterexample:
  "raplcap_set_limits example_conv example_log2 example_pwrite 0 example_session
     RAPLCAP_ZONE_PACKAGE (Some \<lparr>seconds = 1, watts = 4096\<rparr>) None example_dev =
     Some (Inr (example_dev((3, 0x610) := Inr 0x140000))) \<and>
   raplcap_get_limits 0 example_session RAPLCAP_ZONE_PACKAGE True False
     (example_dev((3, 0x610) := Inr 0x140000)) =
     Some (Inr (Some \<lparr>seconds = 1, watts = 0\<rparr>, None)) \<and>
   raplcap_set_limits example_conv example_log2 example_pwrite 0 example_session
     RAPLCAP_ZONE_CORE (Some \<lparr>seconds = 1, watts = 1\<rparr>) None example_dev =
     Some (Inr (example_dev((3, 0x638) := Inr 8))) \<and>
   raplcap_get_limits 0 example_session RAPLCAP_ZONE_CORE True False
     (example_dev((3, 0x638) := Inr 8)) =
     Some (Inr (Some \<lparr>seconds = 1 / 1024, watts = 1\<rparr>, None)) \<and>
   raplcap_set_limits example_conv example_log2 example_pwrite 0 example_session
     RAPLCAP_ZONE_PACKAGE (Some \<lparr>seconds = 4194304, watts = 1\<rparr>) None example_dev =
     Some (Inr (example_dev((3, 0x610) := Inr 8))) \<and>
   raplcap_get_limits 0 example_session RAPLCAP_ZONE_PACKAGE True False
     (example_dev((3, 0x610) := Inr 8)) =
     Some (Inr (Some \<lparr>seconds = 1 / 1024, watts = 1\<rparr>, None)) \<and>
   raplcap_set_limits example_conv example_log2 example_pwrite 0 example_session
     RAPLCAP_ZONE_PACKAGE (Some \<lparr>seconds = 1 / 4096, watts = 1\<rparr>) None example_dev =
     Some (Inr (example_dev((3, 0x610) := Inr 0x3C0008))) \<and>
   raplcap_get_limits 0 example_session RAPLCAP_ZONE_PACKAGE True False
     (example_dev((3, 0x610) := Inr 0x3C0008)) =
     Some (Inr (Some \<lparr>seconds = 1048576, watts = 1\<rparr>, None))"
  by (simp only: example_set_package example_get_package example_set_core example_get_core
        example_set_long_window example_set_short_window example_get_window
        example_get_short_window)

theorem limits_round_trip_witness:
  "zone_register example_session 0 RAPLCAP_ZONE_PACKAGE = Some (example_state, 3, 0x610) \<and>
   example_dev (3, 0x610) = Inr 0 \<and>
   power_units example_state = 1 / 2 ^ 3 \<and> time_units example_state = 1 / 2 ^ 10 \<and>
   raplcap_set_limits example_conv example_log2 example_pwrite 0 example_session
     RAPLCAP_ZONE_PACKAGE (Some \<lparr>seconds = 1, watts = 100\<rparr>) None example_dev =
     Some (Inr (example_dev((3, 0x610) := Inr 0x140320))) \<and>
   class_A RAPLCAP_ZONE_PACKAGE \<and> log2_brackets example_log2 \<and>
   (\<exists>l s.
      raplcap_get_limits 0 example_session RAPLCAP_ZONE_PACKAGE True False
        (example_dev((3, 0x610) := Inr 0x140320)) = Some (Inr (Some l, s)) \<and>
      watts l \<le> 100 \<and> 100 < watts l + 1 / 8 \<and> seconds l \<le> 2 * 1 \<and> 1 < 2 * seconds l)"
proof -
  have lg: "log2_brackets example_log2"
    unfolding example_log2_def by (rule log2_brackets_exact)
  have cl: "class_A RAPLCAP_ZONE_PACKAGE" by (simp add: class_A_def)
  from limits_round_trip [where rc = example_session and socket = 0
      and zone = RAPLCAP_ZONE_PACKAGE and dev = example_dev and w = 0 and W = 100 and T = 1
      and conv = example_conv and lg = example_log2 and pw = example_pwrite
      and ls = None and b = False and dev' = "example_dev((3, 0x610) := Inr 0x140320)"
      and pe = 3 and te = 10,
      OF example_register(1) example_dev_0]
  have "\<exists>l s.
      raplcap_get_limits 0 example_session RAPLCAP_ZONE_PACKAGE True False
        (example_dev((3, 0x610) := Inr 0x140320)) = Some (Inr (Some l, s)) \<and>
      watts l \<le> 100 \<and> 100 < watts l + 1 / 8 \<and> seconds l \<le> 2 * 1 \<and> 1 < 2 * seconds l"
    using example_set_100 lg cl by (simp add: example_units bits_of_def)
  moreover have "power_units example_state = 1 / 2 ^ 3" "time_units example_state = 1 / 2 ^ 10"
    by (simp_all add: example_units)
  ultimately show ?thesis
    using example_register(1) example_dev_0 example_set_100 cl lg by (intro conjI)
qed

theorem time_window_encode_witness:
  "0 < seconds \<lparr>seconds = 1, watts = 0\<rparr> \<and>
   (\<exists>w'. set_pkg_platform example_conv example_log2 0 example_state (Some \<lparr>seconds = 1, watts = 0\<rparr>) None =
            Some w' \<and> bits_of w' 17 21 = 10 \<and> bits_of w' 22 23 = 0)"
  using time_window_encode [where l = "\<lparr>seconds = 1, watts = 0\<rparr>" and conv = example_conv
      and lg = example_log2 and w = 0 and st = example_state and ls = None and ll = None]
  by (simp add: example_units bits_of_def example_log2_1024)

section \<open>What a write of limits leaves alone\<close>

lemma bits_of_frame:
  assumes "\<And>n. bit w' n \<noteq> bit w n \<Longrightarrow> P n" and "f \<le> l" and "\<And>n. f \<le> n \<Longrightarrow> n \<le> l \<Longrightarrow> \<not> P n"
  shows "bits_of w' f l = bits_of w f l"
  by (rule bits_of_cong [OF assms(2)]) (use assms(1,3) in blast)

lemma set_pkg_platform_frame_all:
  fixes conv lg st ll ls w
  defines "w' \<equiv> put_limit_A conv lg st 32 ls (put_limit_A conv lg st 0 ll w)"
  shows "(\<forall>n. bit w' n \<noteq> bit w n \<longrightarrow>
            (n \<le> 14 \<and> requested ll watts) \<or> (17 \<le> n \<and> n \<le> 21 \<and> requested ll seconds) \<or>
            (32 \<le> n \<and> n \<le> 46 \<and> requested ls watts) \<or>
            (49 \<le> n \<and> n \<le> 53 \<and> requested ls seconds)) \<and>
         (\<not> requested ll watts \<longrightarrow> bits_of w' 0 14 = bits_of w 0 14) \<and>
         (\<not> requested ll seconds \<longrightarrow> bits_of w' 17 21 = bits_of w 17 21) \<and>
         (\<not> requested ls watts \<longrightarrow> bits_of w' 32 46 = bits_of w 32 46) \<and>
         (\<not> requested ls seconds \<longrightarrow> bits_of w' 49 53 = bits_of w 49 53) \<and>
         bits_of w' 22 23 = bits_of w 22 23 \<and> bits_of w' 54 55 = bits_of w 54 55 \<and>
         (ls = None \<longrightarrow> (\<forall>n\<ge>32. bit w' n = bit w n)) \<and>
         (ll = None \<longrightarrow> (\<forall>n<32. bit w' n = bit w n))"
proof -
  let ?P = "\<lambda>n. (n \<le> 14 \<and> requested ll watts) \<or> (17 \<le> n \<and> n \<le> 21 \<and> requested ll seconds) \<or>
            (32 \<le> n \<and> n \<le> 46 \<and> requested ls watts) \<or>
            (49 \<le> n \<and> n \<le> 53 \<and> requested ls seconds)"
  have fr: "?P n" if "bit w' n \<noteq> bit w n" for n
    using set_pkg_platform_frame [of conv lg st ls ll w n] that unfolding w'_def by blast
  have keep: "bits_of w' f l = bits_of w f l"
    if "f \<le> l" "\<And>n. f \<le> n \<Longrightarrow> n \<le> l \<Longrightarrow> \<not> ?P n" for f l
    using fr that by (rule bits_of_frame)
  have "bits_of w' 0 14 = bits_of w 0 14" if "\<not> requested ll watts"
    by (rule keep) (use that in auto)
  moreover have "bits_of w' 17 21 = bits_of w 17 21" if "\<not> requested ll seconds"
    by (rule keep) (use that in auto)
  moreover have "bits_of w' 32 46 = bits_of w 32 46" if "\<not> requested ls watts"
    by (rule keep) (use that in auto)
  moreover have "bits_of w' 49 53 = bits_of w 49 53" if "\<not> requested ls seconds"
    by (rule keep) (use that in auto)
  moreover have "bits_of w' 22 23 = bits_of w 22 23" by (rule keep) auto
  moreover have "bits_of w' 54 55 = bits_of w 54 55" by (rule keep) auto
  moreover have "\<forall>n\<ge>32. bit w' n = bit w n" if "ls = None"
    using fr that by (fastforce simp: requested_def)
  moreover have "\<forall>n<32. bit w' n = bit w n" if "ll = None"
    using fr that by (fastforce simp: requested_def)
  ultimately show ?thesis using fr by blast
qed

lemma set_core_uncore_dram_frame_all:
  fixes conv lg st ll w
  defines "w' \<equiv> put_limit_B conv lg st ll w"
  shows "(\<forall>n. bit w' n \<noteq> bit w n \<longrightarrow>
            (n \<le> 14 \<and> requested ll watts) \<or> (17 \<le> n \<and> n \<le> 21 \<and> requested ll seconds)) \<and>
         (\<not> requested ll watts \<longrightarrow> bits_of w' 0 14 = bits_of w 0 14) \<and>
         (\<not> requested ll seconds \<longrightarrow> bits_of w' 17 21 = bits_of w 17 21) \<and>
         bits_of w' 22 23 = bits_of w 22 23"
proof -
  let ?P = "\<lambda>n. (n \<le> 14 \<and> requested ll watts) \<or> (17 \<le> n \<and> n \<le> 21 \<and> requested ll seconds)"
  have fr: "?P n" if "bit w' n \<noteq> bit w n" for n
    using put_limit_B_frame [of conv lg st ll w n] that unfolding w'_def by blast
  have keep: "bits_of w' f l = bits_of w f l"
    if "f \<le> l" "\<And>n. f \<le> n \<Longrightarrow> n \<le> l \<Longrightarrow> \<not> ?P n" for f l
    using fr that by (rule bits_of_frame)
  have "bits_of w' 0 14 = bits_of w 0 14" if "\<not> requested ll watts"
    by (rule keep) (use that in auto)
  moreover have "bits_of w' 17 21 = bits_of w 17 21" if "\<not> requested ll seconds"
    by (rule keep) (use that in auto)
  moreover have "bits_of w' 22 23 = bits_of w 22 23" by (rule keep) auto
  ultimately show ?thesis using fr by blast
qed

text \<open>
  Claim C6: a sub-field of the limits (the power or the time window of the long-term or of
  the short-term limit) is rewritten only when its \<^verbatim>\<open>raplcap_limit\<close> is supplied and the
  requested value is strictly positive; otherwise its bits stay as they were. A bit of
  the register word can only change inside a requested sub-field, so that the short-term
  fields of class A (bits 32 to 46, 49 to 53, 54 to 55) are untouched when only a
  long-term limit is supplied, and the long-term fields when only a short-term limit is
  supplied. A zone of class B ignores the short-term argument. This holds for every word
  and every call, for the functions on words and for a successful \<^verbatim>\<open>raplcap_set_limits\<close>.
\<close>

theorem set_limits_frame:
  "(\<exists>w'. set_pkg_platform conv lg w st ll ls = Some w' \<and>
      (\<forall>n. bit w' n \<noteq> bit w n \<longrightarrow>
           (n \<le> 14 \<and> requested ll watts) \<or> (17 \<le> n \<and> n \<le> 21 \<and> requested ll seconds) \<or>
           (32 \<le> n \<and> n \<le> 46 \<and> requested ls watts) \<or>
           (49 \<le> n \<and> n \<le> 53 \<and> requested ls seconds)) \<and>
      (\<not> requested ll watts \<longrightarrow> bits_of w' 0 14 = bits_of w 0 14) \<and>
      (\<not> requested ll seconds \<longrightarrow> bits_of w' 17 21 = bits_of w 17 21) \<and>
      (\<not> requested ls watts \<longrightarrow> bits_of w' 32 46 = bits_of w 32 46) \<and>
      (\<not> requested ls seconds \<longrightarrow> bits_of w' 49 53 = bits_of w 49 53) \<and>
      bits_of w' 22 23 = bits_of w 22 23 \<and> bits_of w' 54 55 = bits_of w 54 55 \<and>
      (ls = None \<longrightarrow> (\<forall>n\<ge>32. bit w' n = bit w n)) \<and>
      (ll = None \<longrightarrow> (\<forall>n<32. bit w' n = bit w n))) \<and>
   (\<exists>w'. set_core_uncore_dram conv lg w st ll = Some w' \<and>
      (\<forall>n. bit w' n \<noteq> bit w n \<longrightarrow>
           (n \<le> 14 \<and> requested ll watts) \<or> (17 \<le> n \<and> n \<le> 21 \<and> requested ll seconds)) \<and>
      (\<not> requested ll watts \<longrightarrow> bits_of w' 0 14 = bits_of w 0 14) \<and>
      (\<not> requested ll seconds \<longrightarrow> bits_of w' 17 21 = bits_of w 17 21) \<and>
      bits_of w' 22 23 = bits_of w 22 23) \<and>
   (raplcap_set_limits conv lg pw socket rc zone ll ls dev = Some (Inr dev') \<longrightarrow>
      (\<exists>st' fd off old new.
         zone_register rc socket zone = Some (st', fd, off) \<and> dev (fd, off) = Inr old \<and>
         dev' = dev((fd, off) := Inr new) \<and>
         (\<forall>n. bit new n \<noteq> bit old n \<longrightarrow>
              (n \<le> 14 \<and> requested ll watts) \<or> (17 \<le> n \<and> n \<le> 21 \<and> requested ll seconds) \<or>
              (class_A zone \<and> 32 \<le> n \<and> n \<le> 46 \<and> requested ls watts) \<or>
              (class_A zone \<and> 49 \<le> n \<and> n \<le> 53 \<and> requested ls seconds))))"
proof (intro conjI impI)
  show "\<exists>w'. set_pkg_platform conv lg w st ll ls = Some w' \<and>
      (\<forall>n. bit w' n \<noteq> bit w n \<longrightarrow>
           (n \<le> 14 \<and> requested ll watts) \<or> (17 \<le> n \<and> n \<le> 21 \<and> requested ll seconds) \<or>
           (32 \<le> n \<and> n \<le> 46 \<and> requested ls watts) \<or>
           (49 \<le> n \<and> n \<le> 53 \<and> requested ls seconds)) \<and>
      (\<not> requested ll watts \<longrightarrow> bits_of w' 0 14 = bits_of w 0 14) \<and>
      (\<not> requested ll seconds \<longrightarrow> bits_of w' 17 21 = bits_of w 17 21) \<and>
      (\<not> requested ls watts \<longrightarrow> bits_of w' 32 46 = bits_of w 32 46) \<and>
      (\<not> requested ls seconds \<longrightarrow> bits_of w' 49 53 = bits_of w 49 53) \<and>
      bits_of w' 22 23 = bits_of w 22 23 \<and> bits_of w' 54 55 = bits_of w 54 55 \<and>
      (ls = None \<longrightarrow> (\<forall>n\<ge>32. bit w' n = bit w n)) \<and>
      (ll = None \<longrightarrow> (\<forall>n<32. bit w' n = bit w n))"
    unfolding set_pkg_platform_eq
    by (rule exI, rule conjI, rule refl) (rule set_pkg_platform_frame_all)
  show "\<exists>w'. set_core_uncore_dram conv lg w st ll = Some w' \<and>
      (\<forall>n. bit w' n \<noteq> bit w n \<longrightarrow>
           (n \<le> 14 \<and> requested ll watts) \<or> (17 \<le> n \<and> n \<le> 21 \<and> requested ll seconds)) \<and>
      (\<not> requested ll watts \<longrightarrow> bits_of w' 0 14 = bits_of w 0 14) \<and>
      (\<not> requested ll seconds \<longrightarrow> bits_of w' 17 21 = bits_of w 17 21) \<and>
      bits_of w' 22 23 = bits_of w 22 23"
    unfolding set_core_uncore_dram_eq
    by (rule exI, rule conjI, rule refl) (rule set_core_uncore_dram_frame_all)
next
  assume r: "raplcap_set_limits conv lg pw socket rc zone ll ls dev = Some (Inr dev')"
  from set_limits_Inr [OF r] obtain st' fd off old where
    reg: "zone_register rc socket zone = Some (st', fd, off)" "dev (fd, off) = Inr old" by blast
  let ?new = "if class_A zone then put_limit_A conv lg st' 32 ls (put_limit_A conv lg st' 0 ll old)
              else put_limit_B conv lg st' ll old"
  from set_limits_Inr_dev [where dev = dev, OF reg r]
  have d: "dev' = dev((fd, off) := Inr ?new)" by simp
  have "(n \<le> 14 \<and> requested ll watts) \<or> (17 \<le> n \<and> n \<le> 21 \<and> requested ll seconds) \<or>
        (class_A zone \<and> 32 \<le> n \<and> n \<le> 46 \<and> requested ls watts) \<or>
        (class_A zone \<and> 49 \<le> n \<and> n \<le> 53 \<and> requested ls seconds)"
    if "bit ?new n \<noteq> bit old n" for n
  proof (cases "class_A zone")
    case True
    with that set_pkg_platform_frame [of conv lg st' ls ll old n] show ?thesis by auto
  next
    case False
    with that put_limit_B_frame [of conv lg st' ll old n] show ?thesis by auto
  qed
  with reg d show "\<exists>st' fd off old new.
         zone_register rc socket zone = Some (st', fd, off) \<and> dev (fd, off) = Inr old \<and>
         dev' = dev((fd, off) := Inr new) \<and>
         (\<forall>n. bit new n \<noteq> bit old n \<longrightarrow>
              (n \<le> 14 \<and> requested ll watts) \<or> (17 \<le> n \<and> n \<le> 21 \<and> requested ll seconds) \<or>
              (class_A zone \<and> 32 \<le> n \<and> n \<le> 46 \<and> requested ls watts) \<or>
              (class_A zone \<and> 49 \<le> n \<and> n \<le> 53 \<and> requested ls seconds))"
    by blast
qed

theorem set_limits_frame_witness:
  "\<not> requested (Some \<lparr>seconds = 1, watts = 0\<rparr>) watts \<and>
   (\<exists>w'. set_pkg_platform example_conv example_log2 0x12345600001234 example_state
            (Some \<lparr>seconds = 1, watts = 0\<rparr>) None = Some w' \<and>
          bits_of w' 0 14 = bits_of 0x12345600001234 0 14 \<and>
          (\<forall>n\<ge>32. bit w' n = bit (0x12345600001234 :: 64 word) n)) \<and>
   raplcap_set_limits example_conv example_log2 example_pwrite 0 example_session RAPLCAP_ZONE_PACKAGE
     (Some \<lparr>seconds = 1, watts = 4096\<rparr>) None example_dev =
     Some (Inr (example_dev((3, 0x610) := Inr 0x140000))) \<and>
   (\<exists>st' fd off old new.
      zone_register example_session 0 RAPLCAP_ZONE_PACKAGE = Some (st', fd, off) \<and>
      example_dev (fd, off) = Inr old \<and>
      example_dev((3, 0x610) := Inr 0x140000) = example_dev((fd, off) := Inr new) \<and>
      (\<forall>n. bit new n \<noteq> bit old n \<longrightarrow>
           (n \<le> 14 \<and> requested (Some \<lparr>seconds = 1, watts = 4096\<rparr>) watts) \<or>
           (17 \<le> n \<and> n \<le> 21 \<and> requested (Some \<lparr>seconds = 1, watts = 4096\<rparr>) seconds) \<or>
           (class_A RAPLCAP_ZONE_PACKAGE \<and> 32 \<le> n \<and> n \<le> 46 \<and> requested None watts) \<or>
           (class_A RAPLCAP_ZONE_PACKAGE \<and> 49 \<le> n \<and> n \<le> 53 \<and> requested None seconds)))"
proof -
  let ?l = "Some \<lparr>seconds = 1, watts = 0\<rparr>"
  let ?k = "Some \<lparr>seconds = 1, watts = 4096\<rparr>"
  have h: "\<not> requested ?l watts"
    by (simp add: requested_def)
  from set_limits_frame [where conv = example_conv and lg = example_log2
        and pw = example_pwrite and w = "0x12345600001234"
        and st = example_state and ll = ?l and ls = None and socket = 0
        and rc = example_session and zone = RAPLCAP_ZONE_PACKAGE
        and dev = example_dev and dev' = example_dev]
  obtain w' where w': "set_pkg_platform example_conv example_log2 0x12345600001234 example_state ?l None = Some w'"
    "\<not> requested ?l watts \<longrightarrow> bits_of w' 0 14 = bits_of 0x12345600001234 0 14"
    "None = (None :: raplcap_limit option) \<longrightarrow>
       (\<forall>n\<ge>32. bit w' n = bit (0x12345600001234 :: 64 word) n)"
    by (elim conjE exE) (rule that, assumption+)
  from w' h have a: "\<exists>w'. set_pkg_platform example_conv example_log2 0x12345600001234 example_state ?l None = Some w' \<and>
          bits_of w' 0 14 = bits_of 0x12345600001234 0 14 \<and>
          (\<forall>n\<ge>32. bit w' n = bit (0x12345600001234 :: 64 word) n)"
    by simp
  from set_limits_frame [where conv = example_conv and lg = example_log2
        and pw = example_pwrite and ll = ?k and ls = None
        and w = 0 and st = example_state and socket = 0 and rc = example_session
        and zone = RAPLCAP_ZONE_PACKAGE
        and dev = example_dev and dev' = "example_dev((3, 0x610) := Inr 0x140000)"]
  have "raplcap_set_limits example_conv example_log2 example_pwrite 0 example_session RAPLCAP_ZONE_PACKAGE ?k None example_dev =
      Some (Inr (example_dev((3, 0x610) := Inr 0x140000))) \<longrightarrow>
      (\<exists>st' fd off old new.
         zone_register example_session 0 RAPLCAP_ZONE_PACKAGE = Some (st', fd, off) \<and>
         example_dev (fd, off) = Inr old \<and>
         example_dev((3, 0x610) := Inr 0x140000) = example_dev((fd, off) := Inr new) \<and>
         (\<forall>n. bit new n \<noteq> bit old n \<longrightarrow>
              (n \<le> 14 \<and> requested ?k watts) \<or> (17 \<le> n \<and> n \<le> 21 \<and> requested ?k seconds) \<or>
              (class_A RAPLCAP_ZONE_PACKAGE \<and> 32 \<le> n \<and> n \<le> 46 \<and> requested None watts) \<or>
              (class_A RAPLCAP_ZONE_PACKAGE \<and> 49 \<le> n \<and> n \<le> 53 \<and> requested None seconds)))"
    by (elim conjE)
  from this example_set_package have b: "\<exists>st' fd off old new.
      zone_register example_session 0 RAPLCAP_ZONE_PACKAGE = Some (st', fd, off) \<and>
      example_dev (fd, off) = Inr old \<and>
      example_dev((3, 0x610) := Inr 0x140000) = example_dev((fd, off) := Inr new) \<and>
      (\<forall>n. bit new n \<noteq> bit old n \<longrightarrow>
           (n \<le> 14 \<and> requested ?k watts) \<or> (17 \<le> n \<and> n \<le> 21 \<and> requested ?k seconds) \<or>
           (class_A RAPLCAP_ZONE_PACKAGE \<and> 32 \<le> n \<and> n \<le> 46 \<and> requested None watts) \<or>
           (class_A RAPLCAP_ZONE_PACKAGE \<and> 49 \<le> n \<and> n \<le> 53 \<and> requested None seconds))"
    by (rule mp)
  from h a example_set_package b show ?thesis by (intro conjI)
qed

section \<open>Tearing a session down\<close>

lemma close_fds_calls:
  "close_fds cl fdl e k =
     (if failures (close_calls cl fdl k) = [] then e else Some (last (failures (close_calls cl fdl k))),
      foldl (\<lambda>k fd. snd (cl k fd)) k (filter (\<lambda>fd. 0 < fd) fdl))"
proof (induction fdl arbitrary: e k)
  case Nil
  show ?case by (simp add: failures_def)
next
  case (Cons fd rest)
  show ?case
  proof (cases "0 < fd")
    case False
    then show ?thesis using Cons.IH by simp
  next
    case True
    obtain r k' where c: "cl k fd = (r, k')" by (cases "cl k fd")
    show ?thesis
    proof (cases r)
      case None
      with True c show ?thesis using Cons.IH [of e k'] by (simp add: failures_def)
    next
      case (Some err)
      with True c show ?thesis using Cons.IH [of "Some err" k'] by (simp add: failures_def)
    qed
  qed
qed

lemma close_calls_fds: "map fst (close_calls cl fdl k) = filter (\<lambda>fd. 0 < fd) fdl"
  by (induction fdl arbitrary: k) simp_all

text \<open>
  Claim C1, as amended. When closing fails on more than one handle, \<^verbatim>\<open>raplcap_destroy\<close>
  still calls \<^verbatim>\<open>close\<close> on every handle (every descriptor greater than 0, in order,
  whatever the earlier outcomes), returns \<open>-1\<close> if any of them failed, and reports the error
  of the last failing \<^verbatim>\<open>close\<close>: \<^verbatim>\<open>err_save\<close> is overwritten at each failure. The claim
  says that the first error is reported.
\<close>

theorem destroy_reports_last_error:
  assumes "state r = Some st" and "fds st = Some fdl" and "length fdl = unat (nsockets r)"
  shows "raplcap_destroy cl (Some r) k =
           Some (if failures (close_calls cl fdl k) = [] then 0 else - 1,
                 if failures (close_calls cl fdl k) = [] then None
                 else Some (last (failures (close_calls cl fdl k))),
                 Some (r\<lparr>state := None\<rparr>),
                 foldl (\<lambda>k fd. snd (cl k fd)) k (filter (\<lambda>fd. 0 < fd) fdl)) \<and>
         map fst (close_calls cl fdl k) = filter (\<lambda>fd. 0 < fd) fdl"
  using assms by (simp add: raplcap_destroy_def close_fds_calls close_calls_fds)

theorem destroy_reports_last_error_witness:
  "raplcap_destroy example_close (Some example_session3) [] =
     Some (- 1, Some (EOTHER 9), Some (example_session3\<lparr>state := None\<rparr>), [3, 4, 5])"
  using destroy_reports_last_error [where r = example_session3 and cl = example_close
      and k = "[]" and fdl = "[3, 4, 5]"
      and st = "\<lparr>fds = Some [3, 4, 5], power_units = 1 / 8, time_units = 1 / 1024\<rparr>"]
  by (simp add: example_session3_def example_close_def failures_def)

text \<open>
  Claim C1 fails as stated: here the first failing \<^verbatim>\<open>close\<close> (descriptor 3) fails with
  errno 5 and a later one (descriptor 4) with errno 9; all three descriptors are closed,
  and the error reported is 9, the later one.
\<close>

theorem destroy_first_error_counterexample:
  "raplcap_destroy example_close (Some example_session3) [] =
     Some (- 1, Some (EOTHER 9), Some (example_session3\<lparr>state := None\<rparr>), [3, 4, 5]) \<and>
   failures (close_calls example_close [3, 4, 5] []) = [EOTHER 5, EOTHER 9]"
  by (simp add: raplcap_destroy_def example_session3_def example_close_def failures_def)

section \<open>Counting the sockets\<close>

lemma upt_11: "[0..<11] = [0, 1, 2, 3, 4, 5, 6, 7, 8, 9, 10]"
  by (simp add: upt_rec)

lemma physical_id_lines:
  "egrep ''physical id'' (cpuinfo_of eleven_sockets) =
     map (\<lambda>i. ''physical id'' @ [tab] @ '': '' @ show_nat i) [0, 1, 2, 3, 4, 5, 6, 7, 8, 9, 10]"
  by (simp add: egrep_def cpuinfo_of_def cpuinfo_record_def eleven_sockets_def upt_11 tab_def)

lemma sorted_lines:
  "sort_u (map (\<lambda>i. ''physical id'' @ [tab] @ '': '' @ show_nat i) [0, 1, 2, 3, 4, 5, 6, 7, 8, 9, 10]) =
     map (\<lambda>i. ''physical id'' @ [tab] @ '': '' @ show_nat i) [0, 1, 10, 2, 3, 4, 5, 6, 7, 8, 9]"
  by (simp add: sort_u_def tab_def)

lemma last_id:
  "socket_count_cmd (cpuinfo_of eleven_sockets) = [''9'']"
  by (simp add: socket_count_cmd_def physical_id_lines sort_u_def cut_f2_def awk_print1_def
        tail_n1_def is_blank_def tab_def)

lemma fgets_9: "fgets_all [''9''] = [[CHR ''9'', newline]]"
  by (simp add: fgets_all_def newline_def)

lemma strtoul0_9: "strtoul0 [CHR ''9'', newline] = (9, False)"
  by (simp add: strtoul0_def strip_sign_def isspace_def newline_def is_digit_def digit_val_def
        subject_value_def)

lemma count_eleven: "count_sockets (Some (socket_count_cmd (cpuinfo_of eleven_sockets))) = 10"
  by (simp add: count_sockets_def last_id fgets_9 strtoul0_9)

lemma count_no_cpuinfo:
  "raplcap_get_num_sockets None None = 0"
  "raplcap_get_num_sockets None (Some (socket_count_cmd [])) = 0"
  by (simp_all add: raplcap_get_num_sockets_def count_sockets_def socket_count_cmd_def egrep_def
        sort_u_def tail_n1_def fgets_all_def)

lemma count_two_sockets:
  "raplcap_get_num_sockets None
     (Some (socket_count_cmd (cpuinfo_of [(0, 0, 0), (1, 0, 4), (2, 1, 1), (3, 1, 5)]))) = 2"
proof -
  have "socket_count_cmd (cpuinfo_of [(0, 0, 0), (1, 0, 4), (2, 1, 1), (3, 1, 5)]) = [''1'']"
    by (simp add: socket_count_cmd_def cpuinfo_of_def cpuinfo_record_def egrep_def sort_u_def
          cut_f2_def awk_print1_def tail_n1_def is_blank_def tab_def)
  moreover have "fgets_all [''1''] = [[CHR ''1'', newline]]"
    by (simp add: fgets_all_def newline_def)
  moreover have "strtoul0 [CHR ''1'', newline] = (1, False)"
    by (simp add: strtoul0_def strip_sign_def isspace_def newline_def is_digit_def digit_val_def
          subject_value_def)
  ultimately show ?thesis
    by (simp add: raplcap_get_num_sockets_def count_sockets_def)
qed

text \<open>
  Claim C3 says that the socket count without a session is the largest physical id of all
  logical CPUs plus one, also when physical ids have more than one decimal digit. The
  command of the source sorts the \<^verbatim>\<open>physical id\<close> lines as text (\<^verbatim>\<open>sort -u\<close>, not
  \<^verbatim>\<open>sort -n\<close>) and takes the last one: on a machine with the physical ids 0 to 10 the last
  line is the one of id 9, since \<^verbatim>\<open>10\<close> sorts before \<^verbatim>\<open>2\<close>, and the count is 10, not 11.
  (With ids of one digit the count is right, and without \<^verbatim>\<open>physical id\<close> lines or without
  a pipe it is 0: lemmas \<open>count_two_sockets\<close> and \<open>count_no_cpuinfo\<close>.)
\<close>

theorem count_sockets_eleven:
  "raplcap_get_num_sockets None (Some (socket_count_cmd (cpuinfo_of eleven_sockets))) = 10 \<and>
   max_physical_id_plus_one (physical_ids eleven_sockets) = 11"
proof
  show "raplcap_get_num_sockets None (Some (socket_count_cmd (cpuinfo_of eleven_sockets))) = 10"
    by (simp add: raplcap_get_num_sockets_def count_eleven)
  show "max_physical_id_plus_one (physical_ids eleven_sockets) = 11"
    by (simp add: max_physical_id_plus_one_def physical_ids_def eleven_sockets_def upt_11)
qed

section \<open>Finding a core for each socket\<close>

lemma finite_cores_seen: "finite (cores_seen rows s)"
proof -
  have "cores_seen rows s \<subseteq> (\<lambda>row. case sscanf_u_u row of None \<Rightarrow> 0 | Some (a, b) \<Rightarrow> b) ` set rows"
    by (force simp: cores_seen_def)
  then show ?thesis by (rule finite_subset) simp
qed

lemma cores_seen_snoc:
  "sscanf_u_u row = Some (s, c) \<Longrightarrow>
   cores_seen (rows @ [row]) s' = (if s' = s then insert c (cores_seen rows s') else cores_seen rows s')"
  by (auto simp: cores_seen_def)

lemma rows_inv_step:
  assumes inv: "rows_inv n rows cs fs" and p: "sscanf_u_u row = Some (s, c)" and s: "unat s < n"
  shows "rows_inv n (rows @ [row])
           (if \<not> fs ! unat s \<or> c < cs ! unat s then cs[unat s := c] else cs)
           (if \<not> fs ! unat s \<or> c < cs ! unat s then fs[unat s := True] else fs)"
proof -
  have len: "length cs = n" "length fs = n" using inv by (simp_all add: rows_inv_def)
  have old: "(fs ! unat t \<longleftrightarrow> cores_seen rows t \<noteq> {})"
    "fs ! unat t \<Longrightarrow> cs ! unat t = Min (cores_seen rows t)" if "unat t < n" for t
    using inv that by (simp_all add: rows_inv_def)
  have fin: "finite (cores_seen rows t)" for t by (rule finite_cores_seen)
  have inj: "(unat t = unat u) = (t = u)" for t u :: "32 word"
    by (simp add: word_unat_eq_iff)
  show ?thesis
  proof (cases "\<not> fs ! unat s \<or> c < cs ! unat s")
    case True
    have m: "Min (insert c (cores_seen rows s)) = c"
    proof (cases "fs ! unat s")
      case False
      with old(1) [OF s] show ?thesis by simp
    next
      case f: True
      with True have "c < cs ! unat s" by simp
      with old(2) [OF s f] have "c < Min (cores_seen rows s)" by simp
      moreover have "cores_seen rows s \<noteq> {}" using old(1) [OF s] f by simp
      ultimately show ?thesis using fin by (simp add: Min_insert2)
    qed
    from True have e: "(if \<not> fs ! unat s \<or> c < cs ! unat s then a else b) = a" for a b :: 'a
      by simp
    show ?thesis
      unfolding e using len s m old
      by (auto simp: rows_inv_def cores_seen_snoc [OF p] nth_list_update inj)
  next
    case False
    then have f: "fs ! unat s" and le: "cs ! unat s \<le> c" by (simp_all add: not_less)
    have ne: "cores_seen rows s \<noteq> {}" using old(1) [OF s] f by simp
    have "Min (cores_seen rows s) \<le> c" using old(2) [OF s f] le by simp
    then have m: "Min (insert c (cores_seen rows s)) = Min (cores_seen rows s)"
      by (simp only: Min_insert [OF fin ne] min_absorb2)
    from False have e: "(if \<not> fs ! unat s \<or> c < cs ! unat s then a else b) = b" for a b :: 'a
      by simp
    show ?thesis
      unfolding e using len s m old f ne
      by (auto simp: rows_inv_def cores_seen_snoc [OF p])
  qed
qed

lemma scan_rows_ok:
  assumes "rows_inv (unat sockets) seen cs fs"
    and "\<forall>row \<in> set rows. \<exists>s c. sscanf_u_u row = Some (s, c) \<and> s < sockets"
  shows "\<exists>cs' fs'. scan_rows sockets rows cs fs = Inr (cs', fs') \<and>
           rows_inv (unat sockets) (seen @ rows) cs' fs'"
  using assms
proof (induction rows arbitrary: seen cs fs)
  case Nil
  then show ?case by simp
next
  case (Cons row rows)
  from Cons.prems(2) obtain s c where p: "sscanf_u_u row = Some (s, c)" and s: "s < sockets"
    by auto
  from s have s': "unat s < unat sockets" by (simp add: word_less_nat_alt)
  let ?cs = "if \<not> fs ! unat s \<or> c < cs ! unat s then cs[unat s := c] else cs"
  let ?fs = "if \<not> fs ! unat s \<or> c < cs ! unat s then fs[unat s := True] else fs"
  have "rows_inv (unat sockets) (seen @ [row]) ?cs ?fs"
    by (rule rows_inv_step [OF Cons.prems(1) p s'])
  from Cons.IH [OF this] Cons.prems(2)
  obtain cs' fs' where r: "scan_rows sockets rows ?cs ?fs = Inr (cs', fs')"
    "rows_inv (unat sockets) ((seen @ [row]) @ rows) cs' fs'" by auto
  from s have ns: "\<not> sockets \<le> s" by simp
  have "scan_rows sockets (row # rows) cs fs = scan_rows sockets rows ?cs ?fs"
    using p ns by simp
  with r show ?case by simp
qed

lemma scan_rows_bad:
  assumes "\<exists>row \<in> set rows. sscanf_u_u row = None \<or> (\<exists>s c. sscanf_u_u row = Some (s, c) \<and> sockets \<le> s)"
  shows "scan_rows sockets rows cs fs = Inl ENOENT \<or> scan_rows sockets rows cs fs = Inl EINVAL"
  using assms
proof (induction rows arbitrary: cs fs)
  case Nil
  then show ?case by simp
next
  case (Cons row rows)
  show ?case
  proof (cases "sscanf_u_u row")
    case None
    then show ?thesis by simp
  next
    case (Some p)
    obtain s c where p: "p = (s, c)" by (cases p)
    show ?thesis
    proof (cases "sockets \<le> s")
      case True
      with Some p show ?thesis by simp
    next
      case False
      with Cons.prems Some p have
        "\<exists>row \<in> set rows. sscanf_u_u row = None \<or> (\<exists>s c. sscanf_u_u row = Some (s, c) \<and> sockets \<le> s)"
        by auto
      from Cons.IH [OF this] False Some p show ?thesis by simp
    qed
  qed
qed

lemma scan_rows_error:
  "scan_rows sockets rows cs fs = Inl e \<Longrightarrow> e = ENOENT \<or> e = EINVAL"
  by (induction rows arbitrary: cs fs) (auto split: option.splits if_splits)

lemma rows_inv_init: "rows_inv n [] (replicate n 0) (replicate n False)"
  by (simp add: rows_inv_def cores_seen_def)

lemma index_word:
  assumes "i < unat (sockets :: 32 word)"
  shows "unat (word_of_nat i :: 32 word) = i" and "(word_of_nat i :: 32 word) < sockets"
proof -
  have "unat sockets < 2 ^ 32" using unsigned_less [of sockets] by simp
  with assms have "i < 2 ^ 32" by simp
  then show u: "unat (word_of_nat i :: 32 word) = i" by (simp add: unat_of_nat)
  with assms show "(word_of_nat i :: 32 word) < sockets" by (simp add: word_less_nat_alt)
qed

lemma find_coreids_ok:
  assumes rows: "\<forall>row \<in> set (fgets_all ls). \<exists>s c. sscanf_u_u row = Some (s, c) \<and> s < sockets"
    and seen: "\<forall>s < sockets. cores_seen (fgets_all ls) s \<noteq> {}"
  shows "\<exists>cs. find_coreids sockets ls = Inr cs \<and> length cs = unat sockets \<and>
           (\<forall>s < sockets. cs ! unat s = Min (cores_seen (fgets_all ls) s))"
proof -
  from scan_rows_ok [OF rows_inv_init rows]
  obtain cs fs where r: "scan_rows sockets (fgets_all ls)
        (replicate (unat sockets) 0) (replicate (unat sockets) False) = Inr (cs, fs)"
    and inv: "rows_inv (unat sockets) (fgets_all ls) cs fs" by auto
  have f: "fs ! unat s" and m: "cs ! unat s = Min (cores_seen (fgets_all ls) s)"
    if "s < sockets" for s
  proof -
    from that have "unat s < unat sockets" by (simp add: word_less_nat_alt)
    with inv seen that show "fs ! unat s" "cs ! unat s = Min (cores_seen (fgets_all ls) s)"
      by (simp_all add: rows_inv_def)
  qed
  have "fs ! i" if "i < length fs" for i
  proof -
    from that inv have i: "i < unat sockets" by (simp add: rows_inv_def)
    from f [OF index_word(2) [OF i]] index_word(1) [OF i] show ?thesis by simp
  qed
  then have "list_all (\<lambda>found. found) fs" by (simp add: list_all_length)
  with r have "find_coreids sockets ls = Inr cs" by (simp add: find_coreids_def)
  moreover have "length cs = unat sockets" using inv by (simp add: rows_inv_def)
  ultimately show ?thesis using m by blast
qed

lemma find_coreids_missing:
  assumes rows: "\<forall>row \<in> set (fgets_all ls). \<exists>s c. sscanf_u_u row = Some (s, c) \<and> s < sockets"
    and seen: "\<exists>s < sockets. cores_seen (fgets_all ls) s = {}"
  shows "find_coreids sockets ls = Inl ENOENT"
proof -
  from scan_rows_ok [OF rows_inv_init rows]
  obtain cs fs where r: "scan_rows sockets (fgets_all ls)
        (replicate (unat sockets) 0) (replicate (unat sockets) False) = Inr (cs, fs)"
    and inv: "rows_inv (unat sockets) (fgets_all ls) cs fs" by auto
  from seen obtain s where s: "s < sockets" "cores_seen (fgets_all ls) s = {}" by blast
  from s(1) have u: "unat s < unat sockets" by (simp add: word_less_nat_alt)
  with inv s(2) have "\<not> fs ! unat s" "unat s < length fs" by (simp_all add: rows_inv_def)
  then have "\<not> list_all (\<lambda>found. found) fs" by (auto simp: list_all_length)
  with r show ?thesis by (simp add: find_coreids_def)
qed

lemma find_coreids_bad:
  assumes "\<exists>row \<in> set (fgets_all ls).
     sscanf_u_u row = None \<or> (\<exists>s c. sscanf_u_u row = Some (s, c) \<and> sockets \<le> s)"
  shows "find_coreids sockets ls = Inl ENOENT \<or> find_coreids sockets ls = Inl EINVAL"
  using scan_rows_bad [OF assms, of "replicate (unat sockets) 0" "replicate (unat sockets) False"]
  by (auto simp: find_coreids_def)

lemma find_coreids_error: "find_coreids sockets ls = Inl e \<Longrightarrow> e = ENOENT \<or> e = EINVAL"
  by (auto simp: find_coreids_def split: sum.splits if_splits dest: scan_rows_error)

lemma open_loop_ok:
  assumes "\<forall>c \<in> set cs. \<exists>fd. open_msr c = Inr fd" and "i + length cs \<le> length fdl"
  shows "\<exists>fdl'. open_loop open_msr cs i fdl = (Inr (), fdl') \<and> length fdl' = length fdl \<and>
           (\<forall>j<length cs. open_msr (cs ! j) = Inr (fdl' ! (i + j))) \<and>
           (\<forall>j<i. fdl' ! j = fdl ! j)"
  using assms
proof (induction cs arbitrary: i fdl)
  case Nil
  then show ?case by simp
next
  case (Cons c cs)
  from Cons.prems(1) obtain fd where fd: "open_msr c = Inr fd" by auto
  from Cons.prems have "\<forall>c \<in> set cs. \<exists>fd. open_msr c = Inr fd"
    "Suc i + length cs \<le> length (fdl[i := fd])" by simp_all
  from Cons.IH [OF this] obtain fdl' where
    r: "open_loop open_msr cs (Suc i) (fdl[i := fd]) = (Inr (), fdl')"
       "length fdl' = length fdl"
       "\<forall>j<length cs. open_msr (cs ! j) = Inr (fdl' ! (Suc i + j))"
       "\<forall>j<Suc i. fdl' ! j = fdl[i := fd] ! j" by auto
  from r(4) Cons.prems(2) have i: "fdl' ! i = fd" by simp
  have "open_msr ((c # cs) ! j) = Inr (fdl' ! (i + j))" if "j < length (c # cs)" for j
  proof (cases j)
    case 0
    with fd i show ?thesis by simp
  next
    case (Suc j')
    with that r(3) show ?thesis by simp
  qed
  moreover have "fdl' ! j = fdl ! j" if "j < i" for j
    using r(4) that by simp
  ultimately show ?case using fd r(1,2) by simp
qed

subsection \<open>Numbers as text\<close>

text \<open>The text of a number consists of decimal digits, of at most ten for a number below
  \<open>2 ^ 32\<close>, and \<^verbatim>\<open>sscanf\<close> reads the number back from it.\<close>

declare show_nat.simps [simp del]

lemma digit_chars:
  assumes "c \<in> set ''0123456789''"
  shows "is_digit 10 c" and "\<not> is_blank c" and "\<not> isspace c" and "c \<noteq> CHR '':''"
    and "c \<noteq> newline" and "c \<noteq> CHR ''-''" and "c \<noteq> CHR ''+''"
  using assms by (auto simp: is_digit_def digit_val_def is_blank_def isspace_def newline_def)

lemma digit_table: "k < 10 \<Longrightarrow> ''0123456789'' ! k \<in> set ''0123456789''"
  by (rule nth_mem) simp

lemma digit_val_table: "k < 10 \<Longrightarrow> digit_val (''0123456789'' ! k) = Some k"
proof -
  assume "k < 10"
  then have "k \<in> {0, 1, 2, 3, 4, 5, 6, 7, 8, 9}" by auto
  then show ?thesis by (auto simp: digit_val_def)
qed

lemma show_nat_small: "n < 10 \<Longrightarrow> show_nat n = [''0123456789'' ! n]"
  by (subst show_nat.simps) simp

lemma show_nat_big:
  "\<not> n < 10 \<Longrightarrow> show_nat n = show_nat (n div 10) @ [''0123456789'' ! (n mod 10)]"
  by (subst show_nat.simps) simp

lemma show_nat_digits: "c \<in> set (show_nat n) \<Longrightarrow> c \<in> set ''0123456789''"
proof (induction n rule: show_nat.induct)
  case (1 n)
  show ?case
  proof (cases "n < 10")
    case True
    from 1(2) have "c = ''0123456789'' ! n" by (simp only: show_nat_small [OF True]) simp
    with digit_table [OF True] show ?thesis by (simp only:)
  next
    case False
    have m: "''0123456789'' ! (n mod 10) \<in> set ''0123456789''" by (rule digit_table) simp
    from 1(2) have "c \<in> set (show_nat (n div 10)) \<or> c = ''0123456789'' ! (n mod 10)"
      by (simp only: show_nat_big [OF False]) auto
    with 1(1) [OF False] m show ?thesis by (auto simp only:)
  qed
qed

lemma show_nat_ne: "show_nat n \<noteq> []"
  by (cases "n < 10") (simp_all add: show_nat_small show_nat_big)

lemma show_nat_cons: "\<exists>d ds. show_nat n = d # ds \<and> d \<in> set ''0123456789''"
proof (cases "show_nat n")
  case Nil
  with show_nat_ne show ?thesis by blast
next
  case (Cons d ds)
  then have "d \<in> set (show_nat n)" by simp
  with Cons show_nat_digits show ?thesis by blast
qed

lemma parse_digits_show_nat:
  "parse_digits 10 0 (show_nat n @ rest) = parse_digits 10 n rest"
proof (induction n arbitrary: rest rule: show_nat.induct)
  case (1 n)
  show ?case
  proof (cases "n < 10")
    case True
    with digit_chars(1) [OF digit_table [OF True]] show ?thesis
      by (simp add: show_nat_small digit_val_table)
  next
    case False
    have m: "n mod 10 < 10" by simp
    have "parse_digits 10 0 (show_nat n @ rest) =
        parse_digits 10 0 (show_nat (n div 10) @ (''0123456789'' ! (n mod 10)) # rest)"
      by (simp add: show_nat_big [OF False])
    also have "\<dots> = parse_digits 10 (n div 10) ((''0123456789'' ! (n mod 10)) # rest)"
      by (rule 1 [OF False])
    also have "\<dots> = parse_digits 10 (n div 10 * 10 + n mod 10) rest"
      using digit_chars(1) [OF digit_table [OF m]] by (simp add: digit_val_table [OF m])
    finally show ?thesis by simp
  qed
qed

lemma parse_digits_stop:
  "rest = [] \<or> \<not> is_digit 10 (hd rest) \<Longrightarrow> parse_digits 10 n rest = (n, rest)"
  by (cases rest) auto

lemma length_show_nat: "0 < k \<Longrightarrow> n < 10 ^ k \<Longrightarrow> length (show_nat n) \<le> k"
proof (induction n arbitrary: k rule: show_nat.induct)
  case (1 n)
  show ?case
  proof (cases "n < 10")
    case True
    with 1(2) show ?thesis by (simp add: show_nat_small)
  next
    case False
    obtain j where k: "k = Suc j" using 1(2) by (cases k) auto
    have "0 < j"
    proof (rule ccontr)
      assume "\<not> 0 < j"
      with k 1(3) False show False by simp
    qed
    moreover have "n div 10 < 10 ^ j" using 1(3) k by (simp add: div_less_iff_less_mult mult.commute)
    ultimately have "length (show_nat (n div 10)) \<le> j" by (rule 1(1) [OF False])
    with k show ?thesis by (simp add: show_nat_big [OF False])
  qed
qed

lemma length_show_nat_32: "n < 2 ^ 32 \<Longrightarrow> length (show_nat n) \<le> 10"
  by (rule length_show_nat) simp_all

lemma scan_u_space: "scan_u (CHR '' '' # t) = scan_u t"
  by (simp add: scan_u_def isspace_def)

lemma scan_u_show_nat:
  assumes "n < 2 ^ 32" and "rest = [] \<or> \<not> is_digit 10 (hd rest)"
  shows "scan_u (show_nat n @ rest) = Some (word_of_nat n, rest)"
proof -
  from show_nat_cons [of n] obtain d ds where
    d: "show_nat n = d # ds" "d \<in> set ''0123456789''" by blast
  have p: "parse_digits 10 0 (d # ds @ rest) = (n, rest)"
    using parse_digits_show_nat [of n rest] parse_digits_stop [OF assms(2), of n] d(1) by simp
  have n64: "\<not> (2::nat) ^ 64 \<le> n"
  proof -
    have "(2::nat) ^ 32 \<le> 2 ^ 64" by simp
    with assms(1) show ?thesis by linarith
  qed
  have u: "(ucast (word_of_nat n :: 64 word) :: 32 word) = word_of_nat n"
    using n64 by (simp add: unsigned_of_nat take_bit_nat_eq_self)
  show ?thesis
    using digit_chars [OF d(2)] n64
    by (simp add: scan_u_def d(1) strip_sign_def subject_value_def p u del: parse_digits.simps)
qed

lemma sscanf_row:
  assumes "s < 2 ^ 32" and "p < 2 ^ 32"
  shows "sscanf_u_u (show_nat s @ '' '' @ show_nat p @ [newline]) =
           Some (word_of_nat s, word_of_nat p)"
proof -
  have a: "scan_u (show_nat s @ CHR '' '' # show_nat p @ [newline]) =
      Some (word_of_nat s, CHR '' '' # show_nat p @ [newline])"
    by (rule scan_u_show_nat [OF assms(1)]) (simp add: is_digit_def digit_val_def)
  have b: "scan_u (show_nat p @ [newline]) = Some (word_of_nat p, [newline])"
    by (rule scan_u_show_nat [OF assms(2)]) (simp add: is_digit_def digit_val_def newline_def)
  show ?thesis
    using a b by (simp add: sscanf_u_u_def scan_u_space)
qed


subsection \<open>The rows that the command prints for a list of logical CPUs\<close>

text \<open>A row of at most 30 characters arrives in one buffer.\<close>

lemma fgets_acc_line:
  "newline \<notin> set l \<Longrightarrow> length acc + length l < n \<Longrightarrow>
   fgets_acc n acc (l @ newline # rest) = (acc @ l @ [newline]) # fgets_acc n [] rest"
  by (induction l arbitrary: acc) auto

lemma fgets_acc_lines:
  "\<forall>l \<in> set ls. newline \<notin> set l \<and> length l < n \<Longrightarrow>
   fgets_acc n [] (concat (map (\<lambda>l. l @ [newline]) ls)) = map (\<lambda>l. l @ [newline]) ls"
proof (induction ls)
  case Nil
  show ?case by simp
next
  case (Cons l ls)
  from Cons.prems have l: "newline \<notin> set l" "length [] + length l < n" by simp_all
  from Cons.prems have "\<forall>l \<in> set ls. newline \<notin> set l \<and> length l < n" by simp
  from Cons.IH [OF this] fgets_acc_line [OF l] show ?case by simp
qed

lemma fgets_all_lines:
  "\<forall>l \<in> set ls. newline \<notin> set l \<and> length l < 31 \<Longrightarrow>
   fgets_all ls = map (\<lambda>l. l @ [newline]) ls"
  unfolding fgets_all_def by (rule fgets_acc_lines)

text \<open>The command selects the three lines of each logical CPU, cuts the numbers out of
  them, pastes the three numbers into one line, and prints the second number and the first
  one: the physical id and the processor number.\<close>

lemma awk_split_word:
  "\<forall>c \<in> set ds. \<not> is_blank c \<Longrightarrow> awk_split acc (ds @ rest) = awk_split (acc @ ds) rest"
  by (induction ds arbitrary: acc) simp_all

lemma awk_split_show_nat:
  "awk_split [] (CHR '' '' # show_nat n @ rest) = awk_split (show_nat n) rest"
proof -
  have "\<forall>c \<in> set (show_nat n). \<not> is_blank c"
    using show_nat_digits digit_chars(2) by blast
  from awk_split_word [OF this, of "[]" rest] show ?thesis
    by (simp add: is_blank_def)
qed

lemma awk_split_tab: "acc \<noteq> [] \<Longrightarrow> awk_split acc (tab # rest) = acc # awk_split [] rest"
  by (simp add: is_blank_def tab_def)

lemma awk_row:
  "awk_print_2_1 ('' '' @ show_nat p @ [tab] @ '' '' @ show_nat s @ [tab] @ '' '' @ show_nat c) =
     show_nat s @ '' '' @ show_nat p"
proof -
  have "awk_split [] (CHR '' '' # show_nat p @ tab # CHR '' '' # show_nat s @ tab #
          CHR '' '' # show_nat c @ []) = [show_nat p, show_nat s, show_nat c]"
    by (simp only: awk_split_show_nat awk_split_tab [OF show_nat_ne]) (simp add: show_nat_ne)
  then show ?thesis by (simp add: awk_print_2_1_def awk_field_def)
qed

lemma cut_f2_field:
  "CHR '':'' \<notin> set name \<Longrightarrow>
   cut_f2 (name @ '': '' @ show_nat n) = '' '' @ show_nat n"
proof -
  assume a: "CHR '':'' \<notin> set name"
  have b: "CHR '':'' \<notin> set (show_nat n)" using show_nat_digits digit_chars(4) by blast
  have "dropWhile (\<lambda>c. c \<noteq> CHR '':'') (name @ '': '' @ show_nat n) = '': '' @ show_nat n"
  proof -
    have "\<forall>x \<in> set name. x \<noteq> CHR '':''" using a by blast
    then show ?thesis by (simp add: dropWhile_append2)
  qed
  moreover have "takeWhile (\<lambda>c. c \<noteq> CHR '':'') ('' '' @ show_nat n) = '' '' @ show_nat n"
  proof -
    have "\<forall>x \<in> set (show_nat n). x \<noteq> CHR '':''" using b by blast
    then show ?thesis by (simp add: takeWhile_eq_all_conv)
  qed
  ultimately show ?thesis by (simp add: cut_f2_def)
qed

lemma contains_prefix: "contains pat (pat @ rest)"
proof -
  have s: "starts_with pat (pat @ rest)" by (induction pat) simp_all
  show ?thesis
  proof (cases "pat @ rest")
    case Nil
    then show ?thesis by simp
  next
    case (Cons a list)
    with s show ?thesis by simp
  qed
qed

lemma selected_lines:
  "map cut_f2 (egrep_any [''processor'', ''core id'', ''physical id''] (cpuinfo_record (p, s, c) @ ls)) =
     ['' '' @ show_nat p, '' '' @ show_nat s, '' '' @ show_nat c] @
     map cut_f2 (egrep_any [''processor'', ''core id'', ''physical id''] ls)"
proof -
  have 1: "contains ''processor'' (''processor'' @ [tab] @ '': '' @ show_nat p)"
    by (rule contains_prefix)
  have 2: "contains ''physical id'' (''physical id'' @ [tab] @ '': '' @ show_nat s)"
    by (rule contains_prefix)
  have 3: "contains ''core id'' (''core id'' @ [tab, tab] @ '': '' @ show_nat c)"
    by (rule contains_prefix)
  have c1: "cut_f2 ((''processor'' @ [tab]) @ '': '' @ show_nat p) = '' '' @ show_nat p"
    by (rule cut_f2_field) (simp add: tab_def)
  have c2: "cut_f2 ((''physical id'' @ [tab]) @ '': '' @ show_nat s) = '' '' @ show_nat s"
    by (rule cut_f2_field) (simp add: tab_def)
  have c3: "cut_f2 ((''core id'' @ [tab, tab]) @ '': '' @ show_nat c) = '' '' @ show_nat c"
    by (rule cut_f2_field) (simp add: tab_def)
  show ?thesis
    using 1 2 3 c1 c2 c3 by (simp add: egrep_any_def cpuinfo_record_def)
qed

lemma socket_core_rows:
  "socket_core_cmd (cpuinfo_of cpus) = map (\<lambda>(p, s, c). show_nat s @ '' '' @ show_nat p) cpus"
proof -
  have "paste3 (map cut_f2 (egrep_any [''processor'', ''core id'', ''physical id''] (cpuinfo_of cpus))) =
      map (\<lambda>(p, s, c). '' '' @ show_nat p @ [tab] @ '' '' @ show_nat s @ [tab] @ '' '' @ show_nat c) cpus"
  proof (induction cpus)
    case Nil
    show ?case by (simp add: cpuinfo_of_def egrep_any_def)
  next
    case (Cons cpu cpus)
    obtain p s c where cpu: "cpu = (p, s, c)" by (cases cpu)
    have "cpuinfo_of (cpu # cpus) = cpuinfo_record (p, s, c) @ cpuinfo_of cpus"
      by (simp add: cpuinfo_of_def cpu)
    with Cons.IH show ?case by (simp add: selected_lines cpu)
  qed
  then show ?thesis
    using awk_row by (simp add: socket_core_cmd_def case_prod_unfold del: append.simps)
qed


text \<open>So every row that the loop reads is the physical id and the processor number of a
  logical CPU, in the order of the text.\<close>

lemma rows_of_cpus:
  assumes "\<forall>(p, s, c) \<in> set cpus. p < 2 ^ 32 \<and> s < 2 ^ 32"
  shows "map sscanf_u_u (discovery_rows (cpuinfo_of cpus)) =
           map (\<lambda>(p, s, c). Some (word_of_nat s, word_of_nat p)) cpus"
proof -
  let ?row = "\<lambda>(p, s, c). show_nat s @ '' '' @ show_nat p"
  have short: "newline \<notin> set (?row cpu) \<and> length (?row cpu) < 31" if "cpu \<in> set cpus" for cpu
  proof -
    obtain p s c where cpu: "cpu = (p, s, c)" by (cases cpu)
    with that assms have b: "p < 2 ^ 32" "s < 2 ^ 32" by auto
    have "newline \<notin> set (show_nat n)" for n
      using show_nat_digits digit_chars(5) by blast
    moreover have "length (show_nat s) \<le> 10" "length (show_nat p) \<le> 10"
      using b by (simp_all add: length_show_nat_32)
    ultimately show ?thesis by (simp add: cpu newline_def)
  qed
  then have "\<forall>l \<in> set (map ?row cpus). newline \<notin> set l \<and> length l < 31" by auto
  then have "discovery_rows (cpuinfo_of cpus) = map (\<lambda>l. l @ [newline]) (map ?row cpus)"
    unfolding discovery_rows_def socket_core_rows by (rule fgets_all_lines)
  moreover have "sscanf_u_u (?row cpu @ [newline]) =
      (case cpu of (p, s, c) \<Rightarrow> Some (word_of_nat s, word_of_nat p))" if "cpu \<in> set cpus" for cpu
  proof -
    obtain p s c where cpu: "cpu = (p, s, c)" by (cases cpu)
    with that assms have b: "p < 2 ^ 32" "s < 2 ^ 32" by auto
    from sscanf_row [OF b(2,1)] show ?thesis by (simp add: cpu)
  qed
  ultimately show ?thesis by (simp add: comp_def)
qed

lemma word_of_nat_inj32:
  "a < 2 ^ 32 \<Longrightarrow> b < 2 ^ 32 \<Longrightarrow> (word_of_nat a :: 32 word) = word_of_nat b \<longleftrightarrow> a = b"
proof -
  assume a: "a < 2 ^ 32" "b < 2 ^ 32"
  then have "unat (word_of_nat a :: 32 word) = a" "unat (word_of_nat b :: 32 word) = b"
    by (simp_all add: unat_of_nat)
  then show ?thesis by metis
qed

lemma cores_seen_cpus:
  assumes "\<forall>(p, s, c) \<in> set cpus. p < 2 ^ 32 \<and> s < 2 ^ 32" and "s < 2 ^ 32"
  shows "cores_seen (discovery_rows (cpuinfo_of cpus)) (word_of_nat s) =
           word_of_nat ` processors_of cpus s"
proof (rule set_eqI)
  fix core :: "32 word"
  let ?parsed = "map (\<lambda>(p, s, c). Some (word_of_nat s :: 32 word, word_of_nat p :: 32 word)) cpus"
  have cs: "cores_seen rows \<sigma> = {core. Some (\<sigma>, core) \<in> set (map sscanf_u_u rows)}"
    for rows \<sigma>
    by (auto simp: cores_seen_def image_iff) metis
  have "core \<in> cores_seen (discovery_rows (cpuinfo_of cpus)) (word_of_nat s) \<longleftrightarrow>
      Some (word_of_nat s, core) \<in> set ?parsed"
    by (simp only: cs rows_of_cpus [OF assms(1)] mem_Collect_eq)
  also have "\<dots> \<longleftrightarrow>
      (\<exists>p s' c. (p, s', c) \<in> set cpus \<and> (word_of_nat s' :: 32 word) = word_of_nat s \<and>
         core = word_of_nat p)"
  proof
    assume "Some (word_of_nat s, core) \<in> set ?parsed"
    then obtain cpu where cpu: "cpu \<in> set cpus"
      "Some (word_of_nat s, core) =
         (case cpu of (p, s, c) \<Rightarrow> Some (word_of_nat s :: 32 word, word_of_nat p :: 32 word))"
      by auto
    obtain p s' c where "cpu = (p, s', c)" by (cases cpu)
    with cpu show "\<exists>p s' c. (p, s', c) \<in> set cpus \<and>
        (word_of_nat s' :: 32 word) = word_of_nat s \<and> core = word_of_nat p" by auto
  next
    assume "\<exists>p s' c. (p, s', c) \<in> set cpus \<and> (word_of_nat s' :: 32 word) = word_of_nat s \<and>
         core = word_of_nat p"
    then obtain p s' c where h: "(p, s', c) \<in> set cpus"
      "(word_of_nat s' :: 32 word) = word_of_nat s" "core = word_of_nat p" by blast
    from h(2,3) have "Some (word_of_nat s, core) =
        (case (p, s', c) of (p, s, c) \<Rightarrow> Some (word_of_nat s :: 32 word, word_of_nat p :: 32 word))"
      by simp
    with h(1) show "Some (word_of_nat s, core) \<in> set ?parsed"
      by (simp only: set_map image_iff) blast
  qed
  also have "\<dots> \<longleftrightarrow> (\<exists>p c. (p, s, c) \<in> set cpus \<and> core = word_of_nat p)"
  proof
    assume "\<exists>p s' c. (p, s', c) \<in> set cpus \<and> (word_of_nat s' :: 32 word) = word_of_nat s \<and>
         core = word_of_nat p"
    then obtain p s' c where h: "(p, s', c) \<in> set cpus"
      "(word_of_nat s' :: 32 word) = word_of_nat s" "core = word_of_nat p" by blast
    from h(1) assms(1) have "s' < 2 ^ 32" by auto
    with h(2) assms(2) have "s' = s" by (simp add: word_of_nat_inj32)
    with h show "\<exists>p c. (p, s, c) \<in> set cpus \<and> core = word_of_nat p" by blast
  next
    assume "\<exists>p c. (p, s, c) \<in> set cpus \<and> core = word_of_nat p"
    then show "\<exists>p s' c. (p, s', c) \<in> set cpus \<and> (word_of_nat s' :: 32 word) = word_of_nat s \<and>
         core = word_of_nat p" by blast
  qed
  also have "\<dots> \<longleftrightarrow> core \<in> word_of_nat ` processors_of cpus s"
    by (auto simp: processors_of_def)
  finally show "core \<in> cores_seen (discovery_rows (cpuinfo_of cpus)) (word_of_nat s) \<longleftrightarrow>
       core \<in> word_of_nat ` processors_of cpus s" .
qed

lemma finite_processors_of: "finite (processors_of cpus s)"
proof -
  have "processors_of cpus s \<subseteq> fst ` set cpus" by (force simp: processors_of_def)
  then show ?thesis by (rule finite_subset) simp
qed

lemma unat_Min_image:
  assumes "finite P" and "P \<noteq> {}" and "\<forall>p \<in> P. p < 2 ^ 32"
  shows "unat (Min ((word_of_nat :: nat \<Rightarrow> 32 word) ` P)) = Min P"
proof -
  have u: "unat (word_of_nat p :: 32 word) = p" if "p \<in> P" for p
    using assms(3) that by (simp add: unat_of_nat)
  have m: "Min P \<in> P" using assms(1,2) by (rule Min_in)
  have "Min ((word_of_nat :: nat \<Rightarrow> 32 word) ` P) = word_of_nat (Min P)"
  proof (rule Min_eqI)
    show "finite ((word_of_nat :: nat \<Rightarrow> 32 word) ` P)" using assms(1) by simp
    show "word_of_nat (Min P) \<in> (word_of_nat :: nat \<Rightarrow> 32 word) ` P" using m by simp
    fix y :: "32 word" assume "y \<in> word_of_nat ` P"
    then obtain p where p: "p \<in> P" "y = word_of_nat p" by auto
    have "Min P \<le> p" using assms(1) p(1) by simp
    then show "word_of_nat (Min P) \<le> y" by (simp add: p(2) word_le_nat_alt u [OF p(1)] u [OF m])
  qed
  with u [OF m] show ?thesis by simp
qed


subsection \<open>Discovery on a list of logical CPUs\<close>

lemma cpu_rows:
  assumes "\<forall>(p, s, c) \<in> set cpus. p < 2 ^ 32 \<and> s < 2 ^ 32"
    and "row \<in> set (discovery_rows (cpuinfo_of cpus))"
  shows "\<exists>p s c. (p, s, c) \<in> set cpus \<and> sscanf_u_u row = Some (word_of_nat s, word_of_nat p)"
proof -
  from assms(2) have "sscanf_u_u row \<in> set (map sscanf_u_u (discovery_rows (cpuinfo_of cpus)))"
    by simp
  then have "sscanf_u_u row \<in>
      set (map (\<lambda>(p, s, c). Some (word_of_nat s :: 32 word, word_of_nat p :: 32 word)) cpus)"
    by (simp only: rows_of_cpus [OF assms(1)])
  then obtain cpu where cpu: "cpu \<in> set cpus"
    "sscanf_u_u row =
       (case cpu of (p, s, c) \<Rightarrow> Some (word_of_nat s :: 32 word, word_of_nat p :: 32 word))"
    by auto
  obtain p s c where "cpu = (p, s, c)" by (cases cpu)
  with cpu show ?thesis by auto
qed

lemma unat_less_32: "unat (sockets :: 32 word) < 2 ^ 32"
  using unsigned_less [of sockets] by simp

lemma discovery_ok:
  assumes b: "\<forall>(p, s, c) \<in> set cpus. p < 2 ^ 32 \<and> s < unat sockets"
    and all: "\<forall>s < unat sockets. processors_of cpus s \<noteq> {}"
  shows "\<exists>cs. find_coreids sockets (socket_core_cmd (cpuinfo_of cpus)) = Inr cs \<and>
           length cs = unat sockets \<and>
           (\<forall>s < unat sockets. unat (cs ! s) = Min (processors_of cpus s))"
proof -
  let ?rows = "discovery_rows (cpuinfo_of cpus)"
  from b unat_less_32 [of sockets]
  have b32: "\<forall>(p, s, c) \<in> set cpus. p < 2 ^ 32 \<and> s < 2 ^ 32" by fastforce
  have seen: "cores_seen ?rows (word_of_nat s) = word_of_nat ` processors_of cpus s"
    if "s < unat sockets" for s
  proof -
    from that unat_less_32 [of sockets] have "s < 2 ^ 32" by simp
    then show ?thesis by (rule cores_seen_cpus [OF b32])
  qed
  have rows: "\<forall>row \<in> set (fgets_all (socket_core_cmd (cpuinfo_of cpus))).
      \<exists>s c. sscanf_u_u row = Some (s, c) \<and> s < sockets"
  proof
    fix row assume "row \<in> set (fgets_all (socket_core_cmd (cpuinfo_of cpus)))"
    then have "row \<in> set ?rows" by (simp only: discovery_rows_def)
    from cpu_rows [OF b32 this] obtain p s c where
      r: "(p, s, c) \<in> set cpus" "sscanf_u_u row = Some (word_of_nat s, word_of_nat p)" by blast
    from r(1) b have "s < unat sockets" by auto
    from index_word(2) [OF this] r(2)
    show "\<exists>s c. sscanf_u_u row = Some (s, c) \<and> s < sockets" by blast
  qed
  have ne: "\<forall>\<sigma> < sockets. cores_seen (fgets_all (socket_core_cmd (cpuinfo_of cpus))) \<sigma> \<noteq> {}"
  proof (intro allI impI)
    fix \<sigma> assume "\<sigma> < sockets"
    then have u: "unat \<sigma> < unat sockets" by (simp add: word_less_nat_alt)
    from seen [OF u] all u show "cores_seen (fgets_all (socket_core_cmd (cpuinfo_of cpus))) \<sigma> \<noteq> {}"
      by (simp add: discovery_rows_def)
  qed
  from find_coreids_ok [OF rows ne] obtain cs where
    cs: "find_coreids sockets (socket_core_cmd (cpuinfo_of cpus)) = Inr cs"
        "length cs = unat sockets"
        "\<forall>\<sigma> < sockets. cs ! unat \<sigma> = Min (cores_seen (fgets_all (socket_core_cmd (cpuinfo_of cpus))) \<sigma>)"
    by blast
  have "unat (cs ! s) = Min (processors_of cpus s)" if s: "s < unat sockets" for s
  proof -
    from cs(3) index_word(2) [OF s]
    have "cs ! unat (word_of_nat s :: 32 word) =
        Min (cores_seen (fgets_all (socket_core_cmd (cpuinfo_of cpus))) (word_of_nat s))"
      by blast
    then have "cs ! s = Min (cores_seen ?rows (word_of_nat s))"
      by (simp only: index_word(1) [OF s] discovery_rows_def)
    also have "\<dots> = Min (word_of_nat ` processors_of cpus s)"
      by (simp only: seen [OF s])
    finally have "unat (cs ! s) = unat (Min ((word_of_nat :: nat \<Rightarrow> 32 word) ` processors_of cpus s))"
      by simp
    also have "\<dots> = Min (processors_of cpus s)"
    proof (rule unat_Min_image [OF finite_processors_of])
      show "processors_of cpus s \<noteq> {}" using all s by simp
      show "\<forall>p \<in> processors_of cpus s. p < 2 ^ 32" using b by (auto simp: processors_of_def)
    qed
    finally show ?thesis .
  qed
  with cs(1,2) show ?thesis by blast
qed

lemma scan_rows_einval:
  assumes "\<forall>row \<in> set rows. sscanf_u_u row \<noteq> None"
    and "\<exists>row \<in> set rows. \<exists>s c. sscanf_u_u row = Some (s, c) \<and> sockets \<le> s"
  shows "scan_rows sockets rows cs fs = Inl EINVAL"
  using assms
proof (induction rows arbitrary: cs fs)
  case Nil
  then show ?case by simp
next
  case (Cons row rows)
  from Cons.prems(1) obtain s c where p: "sscanf_u_u row = Some (s, c)" by auto
  show ?case
  proof (cases "sockets \<le> s")
    case True
    with p show ?thesis by simp
  next
    case False
    with Cons.prems p have
      "\<forall>row \<in> set rows. sscanf_u_u row \<noteq> None"
      "\<exists>row \<in> set rows. \<exists>s c. sscanf_u_u row = Some (s, c) \<and> sockets \<le> s"
      by auto
    from Cons.IH [OF this] False p show ?thesis by simp
  qed
qed

lemma discovery_extra_socket:
  assumes b: "\<forall>(p, s, c) \<in> set cpus. p < 2 ^ 32 \<and> s < 2 ^ 32"
    and extra: "\<exists>(p, s, c) \<in> set cpus. unat sockets \<le> s"
  shows "find_coreids sockets (socket_core_cmd (cpuinfo_of cpus)) = Inl EINVAL"
proof -
  let ?rows = "discovery_rows (cpuinfo_of cpus)"
  have 1: "\<forall>row \<in> set ?rows. sscanf_u_u row \<noteq> None"
    using cpu_rows [OF b] by fastforce
  from extra obtain p s c where e: "(p, s, c) \<in> set cpus" "unat sockets \<le> s" by auto
  from e(1) b have s32: "s < 2 ^ 32" by auto
  then have "sockets \<le> (word_of_nat s :: 32 word)"
    using e(2) by (simp add: word_le_nat_alt unat_of_nat)
  moreover have "Some (word_of_nat s :: 32 word, word_of_nat p :: 32 word) \<in>
      set (map sscanf_u_u ?rows)"
    unfolding rows_of_cpus [OF b] using e(1) by force
  ultimately have 2: "\<exists>row \<in> set ?rows. \<exists>s c. sscanf_u_u row = Some (s, c) \<and> sockets \<le> s"
    by (auto simp: image_iff) metis
  from scan_rows_einval [OF 1 2] show ?thesis
    by (simp add: find_coreids_def discovery_rows_def)
qed

lemma discovery_missing_socket:
  assumes b: "\<forall>(p, s, c) \<in> set cpus. p < 2 ^ 32 \<and> s < unat sockets"
    and missing: "\<exists>s < unat sockets. processors_of cpus s = {}"
  shows "find_coreids sockets (socket_core_cmd (cpuinfo_of cpus)) = Inl ENOENT"
proof -
  let ?rows = "discovery_rows (cpuinfo_of cpus)"
  from b unat_less_32 [of sockets]
  have b32: "\<forall>(p, s, c) \<in> set cpus. p < 2 ^ 32 \<and> s < 2 ^ 32" by fastforce
  have rows: "\<forall>row \<in> set (fgets_all (socket_core_cmd (cpuinfo_of cpus))).
      \<exists>s c. sscanf_u_u row = Some (s, c) \<and> s < sockets"
  proof
    fix row assume "row \<in> set (fgets_all (socket_core_cmd (cpuinfo_of cpus)))"
    then have "row \<in> set ?rows" by (simp only: discovery_rows_def)
    from cpu_rows [OF b32 this] obtain p s c where
      r: "(p, s, c) \<in> set cpus" "sscanf_u_u row = Some (word_of_nat s, word_of_nat p)" by blast
    from r(1) b have "s < unat sockets" by auto
    from index_word(2) [OF this] r(2)
    show "\<exists>s c. sscanf_u_u row = Some (s, c) \<and> s < sockets" by blast
  qed
  from missing obtain s where s: "s < unat sockets" "processors_of cpus s = {}" by blast
  from s(1) unat_less_32 [of sockets] have "s < 2 ^ 32" by simp
  from cores_seen_cpus [OF b32 this] s(2)
  have "cores_seen (fgets_all (socket_core_cmd (cpuinfo_of cpus))) (word_of_nat s) = {}"
    by (simp add: discovery_rows_def)
  with index_word(2) [OF s(1)]
  have "\<exists>\<sigma> < sockets. cores_seen (fgets_all (socket_core_cmd (cpuinfo_of cpus))) \<sigma> = {}"
    by blast
  from find_coreids_missing [OF rows this] show ?thesis .
qed

subsection \<open>The example of the spec\<close>

lemma example_buffers:
  "fgets_all (socket_core_cmd (cpuinfo_of example_cpus)) =
     [[CHR ''0'', CHR '' '', CHR ''0'', newline], [CHR ''0'', CHR '' '', CHR ''1'', newline],
      [CHR ''1'', CHR '' '', CHR ''2'', newline], [CHR ''1'', CHR '' '', CHR ''3'', newline]]"
  by (simp add: socket_core_rows example_cpus_def show_nat_small fgets_all_def newline_def)

lemma example_scans:
  "sscanf_u_u [CHR ''0'', CHR '' '', CHR ''0'', newline] = Some (0, 0)"
  "sscanf_u_u [CHR ''0'', CHR '' '', CHR ''1'', newline] = Some (0, 1)"
  "sscanf_u_u [CHR ''1'', CHR '' '', CHR ''2'', newline] = Some (1, 2)"
  "sscanf_u_u [CHR ''1'', CHR '' '', CHR ''3'', newline] = Some (1, 3)"
  by (simp_all add: sscanf_u_u_def scan_u_def strip_sign_def isspace_def is_digit_def
        digit_val_def subject_value_def newline_def)

lemma example_find_coreids:
  "find_coreids 2 (socket_core_cmd (cpuinfo_of example_cpus)) = Inr [0, 2]"
proof -
  have r: "replicate 2 x = [x, x]" for x :: 'a
    by (simp add: numeral_2_eq_2)
  have le: "\<not> (2 :: 32 word) \<le> 0" "\<not> (2 :: 32 word) \<le> 1"
    by (simp_all add: word_le_nat_alt)
  show ?thesis
    by (simp add: find_coreids_def example_buffers example_scans r le)
qed

lemma example_open:
  "raplcap_open_msrs 2 (Some (cpuinfo_of example_cpus)) example_open_msr [0, 0] =
     Some (Inr (), [3, 5])"
  by (simp add: raplcap_open_msrs_def example_find_coreids example_open_msr_def)


subsection \<open>Discovery on the rows of any text\<close>

lemma raplcap_open_msrs_no_pipe:
  "0 < sockets \<Longrightarrow> unat sockets \<le> length fdl \<Longrightarrow>
   raplcap_open_msrs sockets None open_msr fdl = Some (Inr (), fdl)"
  by (auto simp: raplcap_open_msrs_def)

lemma rows_discovery:
  "((\<forall>row \<in> set (discovery_rows cpuinfo). \<exists>s c. sscanf_u_u row = Some (s, c) \<and> s < sockets) \<and>
      (\<forall>s < sockets. cores_seen (discovery_rows cpuinfo) s \<noteq> {}) \<longrightarrow>
      (\<exists>cs. find_coreids sockets (socket_core_cmd cpuinfo) = Inr cs \<and> length cs = unat sockets \<and>
         (\<forall>s < sockets. cs ! unat s = Min (cores_seen (discovery_rows cpuinfo) s)) \<and>
         (0 < sockets \<and> length fdl = unat sockets \<and> (\<forall>c \<in> set cs. \<exists>fd. open_msr c = Inr fd) \<longrightarrow>
            (\<exists>fdl'. raplcap_open_msrs sockets (Some cpuinfo) open_msr fdl = Some (Inr (), fdl') \<and>
               (\<forall>s < sockets.
                  open_msr (Min (cores_seen (discovery_rows cpuinfo) s)) = Inr (fdl' ! unat s)))))) \<and>
   ((\<exists>row \<in> set (discovery_rows cpuinfo). sscanf_u_u row = None) \<longrightarrow>
      (\<exists>e. find_coreids sockets (socket_core_cmd cpuinfo) = Inl e)) \<and>
   ((\<exists>row \<in> set (discovery_rows cpuinfo). \<exists>s c. sscanf_u_u row = Some (s, c) \<and> sockets \<le> s) \<longrightarrow>
      (\<exists>e. find_coreids sockets (socket_core_cmd cpuinfo) = Inl e)) \<and>
   ((\<exists>s < sockets. cores_seen (discovery_rows cpuinfo) s = {}) \<longrightarrow>
      (\<exists>e. find_coreids sockets (socket_core_cmd cpuinfo) = Inl e)) \<and>
   (\<forall>e. find_coreids sockets (socket_core_cmd cpuinfo) = Inl e \<longrightarrow>
      (e = ENOENT \<or> e = EINVAL) \<and>
      (0 < sockets \<and> unat sockets \<le> length fdl \<longrightarrow>
         raplcap_open_msrs sockets (Some cpuinfo) open_msr fdl = Some (Inl e, fdl)))"
  unfolding discovery_rows_def
proof (intro conjI impI allI)
  let ?ls = "socket_core_cmd cpuinfo"
  assume h: "(\<forall>row \<in> set (fgets_all ?ls). \<exists>s c. sscanf_u_u row = Some (s, c) \<and> s < sockets) \<and>
    (\<forall>s < sockets. cores_seen (fgets_all ?ls) s \<noteq> {})"
  from find_coreids_ok [of ?ls sockets] h obtain cs where
    cs: "find_coreids sockets ?ls = Inr cs" "length cs = unat sockets"
        "\<forall>s < sockets. cs ! unat s = Min (cores_seen (fgets_all ?ls) s)" by blast
  have "\<exists>fdl'. raplcap_open_msrs sockets (Some cpuinfo) open_msr fdl = Some (Inr (), fdl') \<and>
          (\<forall>s < sockets. open_msr (Min (cores_seen (fgets_all ?ls) s)) = Inr (fdl' ! unat s))"
    if a: "0 < sockets \<and> length fdl = unat sockets \<and> (\<forall>c \<in> set cs. \<exists>fd. open_msr c = Inr fd)"
  proof -
    from a cs(2) have "\<forall>c \<in> set cs. \<exists>fd. open_msr c = Inr fd" "0 + length cs \<le> length fdl"
      by simp_all
    from open_loop_ok [OF this] obtain fdl' where
      o: "open_loop open_msr cs 0 fdl = (Inr (), fdl')"
         "\<forall>j<length cs. open_msr (cs ! j) = Inr (fdl' ! (0 + j))" by blast
    have "open_msr (Min (cores_seen (fgets_all ?ls) s)) = Inr (fdl' ! unat s)" if "s < sockets" for s
    proof -
      from that have "unat s < length cs" by (simp add: cs(2) word_less_nat_alt)
      with o(2) have "open_msr (cs ! unat s) = Inr (fdl' ! unat s)" by simp
      with cs(3) that show ?thesis by simp
    qed
    moreover from a cs(1) o(1)
    have "raplcap_open_msrs sockets (Some cpuinfo) open_msr fdl = Some (Inr (), fdl')"
      by (auto simp: raplcap_open_msrs_def)
    ultimately show ?thesis by blast
  qed
  with cs show "\<exists>cs. find_coreids sockets ?ls = Inr cs \<and> length cs = unat sockets \<and>
         (\<forall>s < sockets. cs ! unat s = Min (cores_seen (fgets_all ?ls) s)) \<and>
         (0 < sockets \<and> length fdl = unat sockets \<and> (\<forall>c \<in> set cs. \<exists>fd. open_msr c = Inr fd) \<longrightarrow>
            (\<exists>fdl'. raplcap_open_msrs sockets (Some cpuinfo) open_msr fdl = Some (Inr (), fdl') \<and>
               (\<forall>s < sockets.
                  open_msr (Min (cores_seen (fgets_all ?ls) s)) = Inr (fdl' ! unat s))))"
    by blast
next
  let ?ls = "socket_core_cmd cpuinfo"
  assume "\<exists>row \<in> set (fgets_all ?ls). sscanf_u_u row = None"
  then have "\<exists>row \<in> set (fgets_all ?ls).
     sscanf_u_u row = None \<or> (\<exists>s c. sscanf_u_u row = Some (s, c) \<and> sockets \<le> s)" by blast
  from find_coreids_bad [OF this] show "\<exists>e. find_coreids sockets ?ls = Inl e" by blast
next
  let ?ls = "socket_core_cmd cpuinfo"
  assume "\<exists>row \<in> set (fgets_all ?ls). \<exists>s c. sscanf_u_u row = Some (s, c) \<and> sockets \<le> s"
  then have "\<exists>row \<in> set (fgets_all ?ls).
     sscanf_u_u row = None \<or> (\<exists>s c. sscanf_u_u row = Some (s, c) \<and> sockets \<le> s)" by blast
  from find_coreids_bad [OF this] show "\<exists>e. find_coreids sockets ?ls = Inl e" by blast
next
  let ?ls = "socket_core_cmd cpuinfo"
  assume m: "\<exists>s < sockets. cores_seen (fgets_all ?ls) s = {}"
  show "\<exists>e. find_coreids sockets ?ls = Inl e"
  proof (cases "\<forall>row \<in> set (fgets_all ?ls). \<exists>s c. sscanf_u_u row = Some (s, c) \<and> s < sockets")
    case True
    from find_coreids_missing [OF True m] show ?thesis by blast
  next
    case False
    then obtain row where row: "row \<in> set (fgets_all ?ls)"
      "\<not> (\<exists>s c. sscanf_u_u row = Some (s, c) \<and> s < sockets)" by blast
    have "sscanf_u_u row = None \<or> (\<exists>s c. sscanf_u_u row = Some (s, c) \<and> sockets \<le> s)"
    proof (cases "sscanf_u_u row")
      case None
      then show ?thesis by simp
    next
      case (Some p)
      with row(2) show ?thesis by (cases p) (auto simp: not_less)
    qed
    with row(1) have "\<exists>row \<in> set (fgets_all ?ls).
      sscanf_u_u row = None \<or> (\<exists>s c. sscanf_u_u row = Some (s, c) \<and> sockets \<le> s)" by blast
    from find_coreids_bad [OF this] show ?thesis by blast
  qed
next
  fix e assume e: "find_coreids sockets (socket_core_cmd cpuinfo) = Inl e"
  then show "e = ENOENT \<or> e = EINVAL" by (rule find_coreids_error)
  assume "0 < sockets \<and> unat sockets \<le> length fdl"
  with e show "raplcap_open_msrs sockets (Some cpuinfo) open_msr fdl = Some (Inl e, fdl)"
    by (auto simp: raplcap_open_msrs_def)
qed

text \<open>A row with fewer than two numbers: the command prints the \<^verbatim>\<open>processor\<close> line of a
  text without any other line as one number after an empty field.\<close>

lemma lone_processor_row: "socket_core_cmd lone_processor = ['' 0'']"
  by (simp add: lone_processor_def socket_core_cmd_def egrep_any_def cut_f2_def
        awk_print_2_1_def awk_field_def is_blank_def tab_def)

lemma discovery_one_field:
  "find_coreids 1 (socket_core_cmd lone_processor) = Inl ENOENT"
  by (simp add: lone_processor_row find_coreids_def fgets_all_def newline_def sscanf_u_u_def
        scan_u_def strip_sign_def isspace_def is_digit_def digit_val_def subject_value_def)

text \<open>
  Claim C8, as amended. The command of the source prints, for each logical CPU, its
  physical id and its processor number: \<^verbatim>\<open>awk\<close> prints the second and the first of the
  three fields that \<^verbatim>\<open>paste\<close> joins, and never the third one, the core id. So, when the
  pipe from the command can be opened, discovery maps each socket to the smallest
  processor number among the logical CPUs of that socket, and the registers that are
  opened are those of these processors. It fails with a discovery error (\<open>ENOENT\<close> or
  \<open>EINVAL\<close>), opening nothing, whenever a row that the command prints yields fewer than two
  numbers, a row names a physical id that is not below the socket count, or some socket
  has no row. This is stated for the rows that the command prints from any text, and for
  the text of a list of logical CPUs, where every row is the physical id and the processor
  number of one of them. For the topology of the spec's example (physical ids 0, 0, 1, 1
  and core ids 0, 4, 1, 5 on the processors 0 to 3), socket 0 maps to 0 and socket 1 maps
  to 2.
\<close>

theorem topology_discovery:
  "((\<forall>row \<in> set (discovery_rows cpuinfo). \<exists>s c. sscanf_u_u row = Some (s, c) \<and> s < sockets) \<and>
      (\<forall>s < sockets. cores_seen (discovery_rows cpuinfo) s \<noteq> {}) \<longrightarrow>
      (\<exists>cs. find_coreids sockets (socket_core_cmd cpuinfo) = Inr cs \<and> length cs = unat sockets \<and>
         (\<forall>s < sockets. cs ! unat s = Min (cores_seen (discovery_rows cpuinfo) s)) \<and>
         (0 < sockets \<and> length fdl = unat sockets \<and> (\<forall>c \<in> set cs. \<exists>fd. open_msr c = Inr fd) \<longrightarrow>
            (\<exists>fdl'. raplcap_open_msrs sockets (Some cpuinfo) open_msr fdl = Some (Inr (), fdl') \<and>
               (\<forall>s < sockets.
                  open_msr (Min (cores_seen (discovery_rows cpuinfo) s)) = Inr (fdl' ! unat s)))))) \<and>
   ((\<exists>row \<in> set (discovery_rows cpuinfo). sscanf_u_u row = None) \<longrightarrow>
      (\<exists>e. find_coreids sockets (socket_core_cmd cpuinfo) = Inl e)) \<and>
   ((\<exists>row \<in> set (discovery_rows cpuinfo). \<exists>s c. sscanf_u_u row = Some (s, c) \<and> sockets \<le> s) \<longrightarrow>
      (\<exists>e. find_coreids sockets (socket_core_cmd cpuinfo) = Inl e)) \<and>
   ((\<exists>s < sockets. cores_seen (discovery_rows cpuinfo) s = {}) \<longrightarrow>
      (\<exists>e. find_coreids sockets (socket_core_cmd cpuinfo) = Inl e)) \<and>
   (\<forall>e. find_coreids sockets (socket_core_cmd cpuinfo) = Inl e \<longrightarrow>
      (e = ENOENT \<or> e = EINVAL) \<and>
      (0 < sockets \<and> unat sockets \<le> length fdl \<longrightarrow>
         raplcap_open_msrs sockets (Some cpuinfo) open_msr fdl = Some (Inl e, fdl))) \<and>
   ((\<forall>(p, s, c) \<in> set cpus. p < 2 ^ 32 \<and> s < 2 ^ 32) \<longrightarrow>
      map sscanf_u_u (discovery_rows (cpuinfo_of cpus)) =
        map (\<lambda>(p, s, c). Some (word_of_nat s, word_of_nat p)) cpus) \<and>
   ((\<forall>(p, s, c) \<in> set cpus. p < 2 ^ 32 \<and> s < unat sockets) \<and>
    (\<forall>s < unat sockets. processors_of cpus s \<noteq> {}) \<longrightarrow>
      (\<exists>cs. find_coreids sockets (socket_core_cmd (cpuinfo_of cpus)) = Inr cs \<and>
         length cs = unat sockets \<and>
         (\<forall>s < unat sockets. unat (cs ! s) = Min (processors_of cpus s)))) \<and>
   ((\<forall>(p, s, c) \<in> set cpus. p < 2 ^ 32 \<and> s < 2 ^ 32) \<and>
    (\<exists>(p, s, c) \<in> set cpus. unat sockets \<le> s) \<longrightarrow>
      find_coreids sockets (socket_core_cmd (cpuinfo_of cpus)) = Inl EINVAL) \<and>
   ((\<forall>(p, s, c) \<in> set cpus. p < 2 ^ 32 \<and> s < unat sockets) \<and>
    (\<exists>s < unat sockets. processors_of cpus s = {}) \<longrightarrow>
      find_coreids sockets (socket_core_cmd (cpuinfo_of cpus)) = Inl ENOENT) \<and>
   find_coreids 2 (socket_core_cmd (cpuinfo_of example_cpus)) = Inr [0, 2]"
proof (intro conjI)
  show "(\<forall>(p, s, c) \<in> set cpus. p < 2 ^ 32 \<and> s < 2 ^ 32) \<longrightarrow>
      map sscanf_u_u (discovery_rows (cpuinfo_of cpus)) =
        map (\<lambda>(p, s, c). Some (word_of_nat s, word_of_nat p)) cpus"
    using rows_of_cpus by blast
  show "(\<forall>(p, s, c) \<in> set cpus. p < 2 ^ 32 \<and> s < unat sockets) \<and>
    (\<forall>s < unat sockets. processors_of cpus s \<noteq> {}) \<longrightarrow>
      (\<exists>cs. find_coreids sockets (socket_core_cmd (cpuinfo_of cpus)) = Inr cs \<and>
         length cs = unat sockets \<and>
         (\<forall>s < unat sockets. unat (cs ! s) = Min (processors_of cpus s)))"
    using discovery_ok [of cpus sockets] by blast
  show "(\<forall>(p, s, c) \<in> set cpus. p < 2 ^ 32 \<and> s < 2 ^ 32) \<and>
    (\<exists>(p, s, c) \<in> set cpus. unat sockets \<le> s) \<longrightarrow>
      find_coreids sockets (socket_core_cmd (cpuinfo_of cpus)) = Inl EINVAL"
    using discovery_extra_socket [of cpus sockets] by blast
  show "(\<forall>(p, s, c) \<in> set cpus. p < 2 ^ 32 \<and> s < unat sockets) \<and>
    (\<exists>s < unat sockets. processors_of cpus s = {}) \<longrightarrow>
      find_coreids sockets (socket_core_cmd (cpuinfo_of cpus)) = Inl ENOENT"
    using discovery_missing_socket [of cpus sockets] by blast
  show "find_coreids 2 (socket_core_cmd (cpuinfo_of example_cpus)) = Inr [0, 2]"
    by (rule example_find_coreids)
qed (insert rows_discovery [of cpuinfo sockets fdl open_msr], (elim conjE, assumption)+)

lemma example_processors:
  "processors_of example_cpus 0 = {0, 1}" "processors_of example_cpus (Suc 0) = {2, 3}"
  "core_ids_of example_cpus 0 = {0, 4}" "core_ids_of example_cpus (Suc 0) = {1, 5}"
  by (auto simp: processors_of_def core_ids_of_def example_cpus_def)

theorem topology_discovery_witness:
  "\<exists>cs. find_coreids 2 (socket_core_cmd (cpuinfo_of example_cpus)) = Inr cs \<and>
      length cs = unat (2 :: 32 word) \<and>
      unat (cs ! 0) = Min (processors_of example_cpus 0) \<and>
      unat (cs ! 1) = Min (processors_of example_cpus 1) \<and>
      Min (processors_of example_cpus 0) = 0 \<and> Min (processors_of example_cpus 1) = 2"
proof -
  have u: "unat (2 :: 32 word) = 2" by simp
  have h1: "\<forall>(p, s, c) \<in> set example_cpus. p < 2 ^ 32 \<and> s < unat (2 :: 32 word)"
    by (simp add: example_cpus_def)
  have h2: "\<forall>s < unat (2 :: 32 word). processors_of example_cpus s \<noteq> {}"
  proof (intro allI impI)
    fix s :: nat assume "s < unat (2 :: 32 word)"
    then have "s = 0 \<or> s = 1" by (auto simp: u)
    then show "processors_of example_cpus s \<noteq> {}" by (auto simp: example_processors)
  qed
  from topology_discovery [where cpus = example_cpus and sockets = 2 and cpuinfo = "[]"
      and fdl = "[]" and open_msr = example_open_msr]
  have "(\<forall>(p, s, c) \<in> set example_cpus. p < 2 ^ 32 \<and> s < unat (2 :: 32 word)) \<and>
    (\<forall>s < unat (2 :: 32 word). processors_of example_cpus s \<noteq> {}) \<longrightarrow>
      (\<exists>cs. find_coreids 2 (socket_core_cmd (cpuinfo_of example_cpus)) = Inr cs \<and>
         length cs = unat (2 :: 32 word) \<and>
         (\<forall>s < unat (2 :: 32 word). unat (cs ! s) = Min (processors_of example_cpus s)))"
    by (elim conjE)
  with h1 h2 obtain cs where
    cs: "find_coreids 2 (socket_core_cmd (cpuinfo_of example_cpus)) = Inr cs"
        "length cs = unat (2 :: 32 word)"
        "\<forall>s < unat (2 :: 32 word). unat (cs ! s) = Min (processors_of example_cpus s)"
    by blast
  from cs(3) have "unat (cs ! 0) = Min (processors_of example_cpus 0)"
    "unat (cs ! 1) = Min (processors_of example_cpus 1)" by (simp_all add: u)
  moreover have "Min (processors_of example_cpus 0) = 0" "Min (processors_of example_cpus 1) = 2"
    by (simp_all add: example_processors)
  ultimately show ?thesis using cs(1,2) by blast
qed

text \<open>
  Claim C8 fails as stated. On the topology of its own example the rows that the command
  prints are \<^verbatim>\<open>0 0\<close>, \<^verbatim>\<open>0 1\<close>, \<^verbatim>\<open>1 2\<close> and \<^verbatim>\<open>1 3\<close>: socket 1 is mapped to 2, the smallest
  processor number of its logical CPUs, and not to 1, the smallest of their core ids; the
  registers opened for it are those of processor 2. And when \<^verbatim>\<open>popen\<close> yields no stream,
  so that no socket has any row, the function returns 0, which is success, with the array
  of descriptors as it was.
\<close>

theorem topology_discovery_counterexample:
  "find_coreids 2 (socket_core_cmd (cpuinfo_of example_cpus)) = Inr [0, 2] \<and>
   raplcap_open_msrs 2 (Some (cpuinfo_of example_cpus)) example_open_msr [0, 0] =
     Some (Inr (), [3, 5]) \<and>
   Min (core_ids_of example_cpus 0) = 0 \<and> Min (core_ids_of example_cpus 1) = 1 \<and>
   raplcap_open_msrs 2 None example_open_msr [0, 0] = Some (Inr (), [0, 0])"
  by (simp add: example_find_coreids example_open example_processors raplcap_open_msrs_no_pipe)

end
